theory Spec2Isabelle
  imports
    Main
    "HOL-Library.Word"
    "HOL-Library.Signed_Division"
    "HOL-Library.Char_ord"
    "HOL-Library.List_Lexorder"
begin

section \<open>Go values used by dsn.go\<close>

text \<open>
  A Go string is a sequence of bytes: \<open>string\<close> (a \<open>char list\<close>). Go's \<open>int\<close> (64 bits
  on the platforms the driver targets), \<open>int64\<close> and \<open>time.Duration\<close> (nanoseconds in an
  \<open>int64\<close>) are \<open>64 word\<close>, read as two's complement with \<open>sint\<close>.
\<close>

type_synonym go_int = "64 word"
type_synonym duration = "64 word"

definition Second :: duration where
  "Second = 1000000000"

text \<open>\<open>s[lo:hi]\<close>. Every slice expression of dsn.go is taken with
  \<open>0 \<le> lo \<le> hi \<le> len(s)\<close>, where Go does not panic.\<close>

definition slice :: "string \<Rightarrow> int \<Rightarrow> int \<Rightarrow> string" where
  "slice s lo hi = take (nat (hi - lo)) (drop (nat lo) s)"

text \<open>\<open>s[lo:]\<close>\<close>

definition slice_from :: "string \<Rightarrow> int \<Rightarrow> string" where
  "slice_from s lo = drop (nat lo) s"

subsection \<open>Package strings\<close>

text \<open>\<open>strings.HasPrefix\<close>, \<open>strings.HasSuffix\<close>\<close>

definition HasPrefix :: "string \<Rightarrow> string \<Rightarrow> bool" where
  "HasPrefix s p = (length p \<le> length s \<and> take (length p) s = p)"

definition HasSuffix :: "string \<Rightarrow> string \<Rightarrow> bool" where
  "HasSuffix s suffix =
     (length suffix \<le> length s \<and> drop (length s - length suffix) s = suffix)"

text \<open>\<open>strings.Index\<close>: the index of the first instance of \<open>substr\<close> in \<open>s\<close>, or -1.\<close>

fun Index :: "string \<Rightarrow> string \<Rightarrow> int" where
  "Index [] substr = (if substr = [] then 0 else -1)"
| "Index (c # s) substr =
     (if HasPrefix (c # s) substr then 0
      else (let r = Index s substr in if r < 0 then -1 else r + 1))"

text \<open>\<open>strings.SplitN(s, sep, n)\<close> for \<open>n > 0\<close> and a non-empty separator: at most \<open>n\<close>
  pieces, the last one the unsplit remainder.\<close>

fun SplitN :: "string \<Rightarrow> string \<Rightarrow> nat \<Rightarrow> string list" where
  "SplitN s sep 0 = []"
| "SplitN s sep (Suc 0) = [s]"
| "SplitN s sep (Suc (Suc n)) =
     (let m = Index s sep in
      if m < 0 then [s]
      else slice s 0 m # SplitN (slice_from s (m + int (length sep))) sep (Suc n))"

text \<open>\<open>strings.Split(s, sep)\<close> for a non-empty separator is
  \<open>SplitN(s, sep, strings.Count(s, sep) + 1)\<close>; an occurrence takes at least one byte,
  so \<open>len(s) + 1\<close> pieces are never exceeded.\<close>

definition Split :: "string \<Rightarrow> string \<Rightarrow> string list" where
  "Split s sep = SplitN s sep (Suc (length s))"

subsection \<open>Package strconv\<close>

datatype numerr = ErrSyntax | ErrRange

datatype error =
    ErrEmptyAccount
  | ErrEmptyUsername
  | ErrEmptyPassword
  | ErrFailedToParsePort string
  | EscapeError string
  | NumError string string numerr

definition isdigit :: "char \<Rightarrow> bool" where
  "isdigit c = (CHR ''0'' \<le> c \<and> c \<le> CHR ''9'')"

definition digitval :: "char \<Rightarrow> int" where
  "digitval c = of_char c - of_char (CHR ''0'')"

text \<open>The digit loop of \<open>strconv.ParseUint(s, 10, 64)\<close>: a byte that is not a decimal
  digit is a syntax error; a value that leaves the 64 bits is a range error, reported at
  the digit where it happens.\<close>

fun parseUint_loop :: "int \<Rightarrow> string \<Rightarrow> numerr + int" where
  "parseUint_loop n [] = Inr n"
| "parseUint_loop n (c # s) =
     (if \<not> isdigit c then Inl ErrSyntax
      else if n \<ge> (2 ^ 64 - 1) div 10 + 1 then Inl ErrRange
      else (let n1 = n * 10 + digitval c in
            if n1 > 2 ^ 64 - 1 then Inl ErrRange else parseUint_loop n1 s))"

definition ParseUint :: "string \<Rightarrow> numerr + int" where
  "ParseUint s = (if s = [] then Inl ErrSyntax else parseUint_loop 0 s)"

text \<open>\<open>strconv.ParseInt(s, 10, 64)\<close>, without the \<open>NumError\<close> wrapping.\<close>

definition parseInt64 :: "string \<Rightarrow> numerr + int" where
  "parseInt64 s0 =
     (if s0 = [] then Inl ErrSyntax
      else
        (let neg = (hd s0 = CHR ''-'');
             s = (if hd s0 = CHR ''+'' \<or> hd s0 = CHR ''-'' then tl s0 else s0)
         in case ParseUint s of
              Inl ErrSyntax \<Rightarrow> Inl ErrSyntax
            | Inl ErrRange \<Rightarrow> Inl ErrRange
            | Inr un \<Rightarrow>
                if \<not> neg \<and> un \<ge> 2 ^ 63 then Inl ErrRange
                else if neg \<and> un > 2 ^ 63 then Inl ErrRange
                else Inr (if neg then - un else un)))"

definition ParseInt :: "string \<Rightarrow> error + 64 word" where
  "ParseInt s =
     (case parseInt64 s of
        Inl e \<Rightarrow> Inl (NumError ''ParseInt'' s e)
      | Inr i \<Rightarrow> Inr (word_of_int i))"

text \<open>\<open>strconv.Atoi\<close>: \<open>ParseInt(s, 10, 0)\<close> with the function name \<open>Atoi\<close> in the error.\<close>

definition Atoi :: "string \<Rightarrow> error + go_int" where
  "Atoi s =
     (case parseInt64 s of
        Inl e \<Rightarrow> Inl (NumError ''Atoi'' s e)
      | Inr i \<Rightarrow> Inr (word_of_int i))"

definition ParseBool :: "string \<Rightarrow> error + bool" where
  "ParseBool str =
     (if str \<in> set [''1'', ''t'', ''T'', ''TRUE'', ''true'', ''True''] then Inr True
      else if str \<in> set [''0'', ''f'', ''F'', ''FALSE'', ''false'', ''False''] then Inr False
      else Inl (NumError ''ParseBool'' str ErrSyntax))"

definition FormatBool :: "bool \<Rightarrow> string" where
  "FormatBool b = (if b then ''true'' else ''false'')"

definition digitchar :: "int \<Rightarrow> char" where
  "digitchar d = char_of (of_char (CHR ''0'') + d)"

function FormatUint :: "int \<Rightarrow> string" where
  "FormatUint n = (if n < 10 then [digitchar n] else FormatUint (n div 10) @ [digitchar (n mod 10)])"
  by pat_completeness auto
termination
  by (relation "measure nat") auto

declare FormatUint.simps [simp del]

text \<open>\<open>strconv.FormatInt(i, 10)\<close>; also what \<open>%v\<close> prints for an \<open>int\<close>.\<close>

definition FormatInt :: "int \<Rightarrow> string" where
  "FormatInt i = (if i < 0 then CHR ''-'' # FormatUint (- i) else FormatUint i)"

subsection \<open>Package net/url\<close>

definition ishex :: "char \<Rightarrow> bool" where
  "ishex c =
     ((CHR ''0'' \<le> c \<and> c \<le> CHR ''9'') \<or> (CHR ''a'' \<le> c \<and> c \<le> CHR ''f'')
      \<or> (CHR ''A'' \<le> c \<and> c \<le> CHR ''F''))"

definition unhex :: "char \<Rightarrow> nat" where
  "unhex c =
     (if CHR ''0'' \<le> c \<and> c \<le> CHR ''9'' then of_char c - of_char (CHR ''0'')
      else if CHR ''a'' \<le> c \<and> c \<le> CHR ''f'' then of_char c - of_char (CHR ''a'') + 10
      else if CHR ''A'' \<le> c \<and> c \<le> CHR ''F'' then of_char c - of_char (CHR ''A'') + 10
      else 0)"

text \<open>First pass of \<open>url.unescape\<close> (mode \<open>encodeQueryComponent\<close>): every \<open>%\<close> must be
  followed by two hex digits; otherwise the error carries at most three bytes from the
  \<open>%\<close> on.\<close>

fun unescape_check :: "string \<Rightarrow> error option" where
  "unescape_check [] = None"
| "unescape_check (c # s) =
     (if c = CHR ''%'' then
        (case s of
           h1 # h2 # rest \<Rightarrow>
             if ishex h1 \<and> ishex h2 then unescape_check rest
             else Some (EscapeError (take 3 (c # s)))
         | _ \<Rightarrow> Some (EscapeError (take 3 (c # s))))
      else unescape_check s)"

text \<open>Second pass: \<open>%XX\<close> becomes the byte, \<open>+\<close> a space.\<close>

fun unescape_build :: "string \<Rightarrow> string" where
  "unescape_build [] = []"
| "unescape_build (c # s) =
     (if c = CHR ''%'' then
        (case s of
           h1 # h2 # rest \<Rightarrow> char_of (unhex h1 * 16 + unhex h2) # unescape_build rest
         | _ \<Rightarrow> [])
      else if c = CHR ''+'' then CHR '' '' # unescape_build s
      else c # unescape_build s)"

definition QueryUnescape :: "string \<Rightarrow> error + string" where
  "QueryUnescape s =
     (case unescape_check s of Some e \<Rightarrow> Inl e | None \<Rightarrow> Inr (unescape_build s))"

text \<open>\<open>url.shouldEscape(c, encodeQueryComponent)\<close>: everything but letters, digits and
  \<open>- _ . ~\<close>.\<close>

definition shouldEscape :: "char \<Rightarrow> bool" where
  "shouldEscape c =
     (\<not> ((CHR ''a'' \<le> c \<and> c \<le> CHR ''z'') \<or> (CHR ''A'' \<le> c \<and> c \<le> CHR ''Z'')
         \<or> (CHR ''0'' \<le> c \<and> c \<le> CHR ''9'')
         \<or> c = CHR ''-'' \<or> c = CHR ''_'' \<or> c = CHR ''.'' \<or> c = CHR ''~''))"

definition upperhex :: string where
  "upperhex = ''0123456789ABCDEF''"

definition escape_byte :: "char \<Rightarrow> string" where
  "escape_byte c =
     (if c = CHR '' '' then ''+''
      else if shouldEscape c then
        [CHR ''%'', upperhex ! (of_char c div 16), upperhex ! (of_char c mod 16)]
      else [c])"

definition QueryEscape :: "string \<Rightarrow> string" where
  "QueryEscape s = concat (map escape_byte s)"

text \<open>\<open>url.Values\<close> holds each key's values in the order of the \<open>Add\<close> calls; the model
  keeps the list of added pairs. \<open>Encode\<close> emits the keys in sorted (bytewise) order,
  the values of one key in the order they were added.\<close>

type_synonym Values = "(string \<times> string) list"

definition Add :: "Values \<Rightarrow> string \<Rightarrow> string \<Rightarrow> Values" where
  "Add v key val = v @ [(key, val)]"

fun join_amp :: "string list \<Rightarrow> string" where
  "join_amp [] = []"
| "join_amp [x] = x"
| "join_amp (x # y # ys) = x @ ''&'' @ join_amp (y # ys)"

definition Encode :: "Values \<Rightarrow> string" where
  "Encode v =
     join_amp (map (\<lambda>(k, x). QueryEscape k @ ''='' @ QueryEscape x) (sort_key fst v))"

section \<open>The Config model\<close>

record Config =
  Account :: string
  User :: string
  Password :: string
  Database :: string
  Schema :: string
  Warehouse :: string
  Role :: string
  Region :: string
  Params :: "string \<rightharpoonup> string"
  Protocol :: string
  Host :: string
  Port :: go_int
  Authenticator :: string
  Passcode :: string
  PasscodeInPassword :: bool
  LoginTimeout :: duration
  RequestTimeout :: duration
  Application :: string
  InsecureMode :: bool

text \<open>The package-level variables that the proxy keys of a DSN are written to. They are
  declared elsewhere in the package; dsn.go only assigns them.\<close>

record proxy =
  proxyHost :: string
  proxyPort :: go_int
  proxyUser :: string
  proxyPassword :: string

definition defaultLoginTimeout :: duration where
  "defaultLoginTimeout = 60 * Second"

definition defaultRequestTimeout :: duration where
  "defaultRequestTimeout = 0 * Second"

definition defaultAuthenticator :: string where
  "defaultAuthenticator = ''snowflake''"

text \<open>The constant \<open>clientType\<close> (the default application name) is declared in another
  file of the package; every function that reads it takes it as its first argument.\<close>

section \<open>fillMissingConfigParameters\<close>

text \<open>The function returns before its first assignment whenever it fails, so the
  Config it was given is unchanged on the error branches.\<close>

definition fillMissingConfigParameters :: "string \<Rightarrow> Config \<Rightarrow> error + Config" where
  "fillMissingConfigParameters clientType cfg =
     (if Account cfg = [] then Inl ErrEmptyAccount
      else if User cfg = [] then Inl ErrEmptyUsername
      else if Password cfg = [] then Inl ErrEmptyPassword
      else
        (let cfg = (if Protocol cfg = [] then cfg\<lparr>Protocol := ''https''\<rparr> else cfg);
             cfg = (if Port cfg = 0 then cfg\<lparr>Port := 443\<rparr> else cfg);
             cfg =
               (if Region cfg \<noteq> [] then
                  (let i = Index (Host cfg) ''.snowflakecomputing.com'' in
                   if i \<ge> 1 then
                     (let hostPrefix = slice (Host cfg) 0 i in
                      if \<not> HasSuffix hostPrefix (Region cfg)
                      then cfg\<lparr>Host := hostPrefix @ ''.'' @ Region cfg @ ''.snowflakecomputing.com''\<rparr>
                      else cfg)
                   else cfg)
                else cfg);
             cfg = (if LoginTimeout cfg = 0 then cfg\<lparr>LoginTimeout := defaultLoginTimeout\<rparr> else cfg);
             cfg = (if RequestTimeout cfg = 0 then cfg\<lparr>RequestTimeout := defaultRequestTimeout\<rparr> else cfg);
             cfg = (if Application cfg = [] then cfg\<lparr>Application := clientType\<rparr> else cfg);
             cfg = (if Authenticator cfg = [] then cfg\<lparr>Authenticator := defaultAuthenticator\<rparr> else cfg)
         in Inr cfg))"

section \<open>DSN\<close>

text \<open>\<open>DSN\<close> works through the pointer it is given: the first component of the result is
  the caller's Config as the call leaves it, the second is the returned pair
  \<open>(dsn, err)\<close>.\<close>

definition DSN_params :: "string \<Rightarrow> Config \<Rightarrow> Values" where
  "DSN_params clientType cfg =
     (let params = [];
          params = (if Database cfg \<noteq> [] then Add params ''database'' (Database cfg) else params);
          params = (if Schema cfg \<noteq> [] then Add params ''schema'' (Schema cfg) else params);
          params = (if Warehouse cfg \<noteq> [] then Add params ''warehouse'' (Warehouse cfg) else params);
          params = (if Role cfg \<noteq> [] then Add params ''role'' (Role cfg) else params);
          params = (if Region cfg \<noteq> [] then Add params ''region'' (Region cfg) else params);
          params = (if Authenticator cfg \<noteq> defaultAuthenticator
                    then Add params ''authenticator'' (Authenticator cfg) else params);
          params = (if Passcode cfg \<noteq> [] then Add params ''passcode'' (Passcode cfg) else params);
          params = (if PasscodeInPassword cfg
                    then Add params ''passcodeInPassword'' (FormatBool (PasscodeInPassword cfg))
                    else params);
          params = (if LoginTimeout cfg \<noteq> defaultLoginTimeout
                    then Add params ''loginTimeout''
                           (FormatInt (sint (LoginTimeout cfg) sdiv sint Second))
                    else params);
          params = (if RequestTimeout cfg \<noteq> defaultRequestTimeout
                    then Add params ''requestTimeout''
                           (FormatInt (sint (RequestTimeout cfg) sdiv sint Second))
                    else params);
          params = (if Application cfg \<noteq> clientType
                    then Add params ''application'' (Application cfg) else params)
      in params)"

text \<open>The first step of \<open>DSN\<close>: an empty host is built from account and region.\<close>

definition DSN_host :: "Config \<Rightarrow> Config" where
  "DSN_host cfg =
     (if Host cfg = [] then
        (if Region cfg = [] then cfg\<lparr>Host := Account cfg @ ''.snowflakecomputing.com''\<rparr>
         else cfg\<lparr>Host := Account cfg @ ''.'' @ Region cfg @ ''.snowflakecomputing.com''\<rparr>)
      else cfg)"

text \<open>The second step (\<open>in case account includes region\<close>): an account with a dot after its
  first byte is split at its first dot.\<close>

definition DSN_account :: "Config \<Rightarrow> Config" where
  "DSN_account cfg =
     (let posDot = Index (Account cfg) ''.'' in
      if posDot > 0 then
        cfg\<lparr>Region := slice_from (Account cfg) (posDot + 1),
            Account := slice (Account cfg) 0 posDot\<rparr>
      else cfg)"

text \<open>The string built from a Config that went through fillMissingConfigParameters.\<close>

definition DSN_string :: "string \<Rightarrow> Config \<Rightarrow> string" where
  "DSN_string clientType cfg =
     (let params = DSN_params clientType cfg;
          dsn = User cfg @ '':'' @ Password cfg @ ''@'' @ Host cfg @ '':''
                @ FormatInt (sint (Port cfg));
          dsn = (if Encode params \<noteq> [] then dsn @ ''?'' @ Encode params else dsn)
      in dsn)"

definition DSN :: "string \<Rightarrow> Config \<Rightarrow> Config \<times> (error + string)" where
  "DSN clientType cfg =
     (let cfg = DSN_host cfg;
          cfg = DSN_account cfg
      in case fillMissingConfigParameters clientType cfg of
           Inl err \<Rightarrow> (cfg, Inl err)
         | Inr cfg \<Rightarrow> (cfg, Inr (DSN_string clientType cfg)))"

section \<open>ParseDSN\<close>

text \<open>The forward loops \<open>for k = lo; k < hi; k++ { if dsn[k] == c { ...; break } }\<close> of
  parseUserPassword, parseAccountHostPort and parseParams: the value of \<open>k\<close> when the
  loop is left.\<close>

function scanFor :: "char \<Rightarrow> string \<Rightarrow> nat \<Rightarrow> nat \<Rightarrow> nat" where
  "scanFor c dsn k hi =
     (if k < hi then (if dsn ! k = c then k else scanFor c dsn (Suc k) hi) else k)"
  by pat_completeness auto
termination
  by (relation "measure (\<lambda>(c, dsn, k, hi). hi - k)") auto

declare scanFor.simps [simp del]

definition parseUserPassword :: "int \<Rightarrow> string \<Rightarrow> string \<times> string" where
  "parseUserPassword posAt dsn =
     (let k = int (scanFor CHR '':'' dsn 0 (nat posAt));
          password = (if k < posAt then slice dsn (k + 1) posAt else []);
          user = slice dsn 0 k
      in (user, password))"

text \<open>The result is \<open>(region, account, host, port)\<close>.\<close>

definition parseAccountHostPort ::
  "int \<Rightarrow> int \<Rightarrow> string \<Rightarrow> error + (string \<times> string \<times> string \<times> go_int)" where
  "parseAccountHostPort posAt posSlash dsn =
     (let k = int (scanFor CHR '':'' dsn (nat (posAt + 1)) (nat posSlash));
          port_err = (if k < posSlash then Atoi (slice dsn (k + 1) posSlash) else Inr 0)
      in case port_err of
           Inl _ \<Rightarrow> Inl (ErrFailedToParsePort (slice dsn (k + 1) posSlash))
         | Inr port \<Rightarrow>
             (let host = slice dsn (posAt + 1) k in
              if port = 0 \<and> \<not> HasSuffix host ''snowflakecomputing.com'' then
                (let account = host;
                     host = account @ ''.snowflakecomputing.com'';
                     port = 443;
                     posDot = Index account ''.''
                 in if posDot > 0
                    then Inr (slice_from account (posDot + 1), slice account 0 posDot, host, port)
                    else Inr ([], account, host, port))
              else Inr ([], [], host, port)))"

text \<open>The body of the loop of parseDSNParams for one piece \<open>v\<close> of the query string, after
  the value has been unescaped: the \<open>switch\<close> on the key.\<close>

definition parseDSNParams_switch ::
  "Config \<Rightarrow> proxy \<Rightarrow> string \<Rightarrow> string \<Rightarrow> (error + Config) \<times> proxy" where
  "parseDSNParams_switch cfg px key val =
     (if key = ''account'' then (Inr (cfg\<lparr>Account := val\<rparr>), px)
      else if key = ''warehouse'' then (Inr (cfg\<lparr>Warehouse := val\<rparr>), px)
      else if key = ''database'' then (Inr (cfg\<lparr>Database := val\<rparr>), px)
      else if key = ''schema'' then (Inr (cfg\<lparr>Schema := val\<rparr>), px)
      else if key = ''role'' then (Inr (cfg\<lparr>Role := val\<rparr>), px)
      else if key = ''region'' then (Inr (cfg\<lparr>Region := val\<rparr>), px)
      else if key = ''protocol'' then (Inr (cfg\<lparr>Protocol := val\<rparr>), px)
      else if key = ''passcode'' then (Inr (cfg\<lparr>Passcode := val\<rparr>), px)
      else if key = ''passcodeInPassword'' then
        (case ParseBool val of
           Inl err \<Rightarrow> (Inl err, px)
         | Inr vv \<Rightarrow> (Inr (cfg\<lparr>PasscodeInPassword := vv\<rparr>), px))
      else if key = ''loginTimeout'' then
        (case ParseInt val of
           Inl err \<Rightarrow> (Inl err, px)
         | Inr vv \<Rightarrow> (Inr (cfg\<lparr>LoginTimeout := vv * Second\<rparr>), px))
      else if key = ''application'' then (Inr (cfg\<lparr>Application := val\<rparr>), px)
      else if key = ''authenticator'' then (Inr (cfg\<lparr>Authenticator := val\<rparr>), px)
      else if key = ''insecureMode'' then
        (case ParseBool val of
           Inl err \<Rightarrow> (Inl err, px)
         | Inr vv \<Rightarrow> (Inr (cfg\<lparr>InsecureMode := vv\<rparr>), px))
      else if key = ''proxyHost'' then (Inr cfg, px\<lparr>proxyHost := val\<rparr>)
      else if key = ''proxyPort'' then
        (case ParseInt val of
           Inl err \<Rightarrow> (Inl err, px)
         | Inr vv \<Rightarrow> (Inr cfg, px\<lparr>proxyPort := vv\<rparr>))
      else if key = ''proxyUser'' then (Inr cfg, px\<lparr>proxyUser := val\<rparr>)
      else if key = ''proxyPassword'' then (Inr cfg, px\<lparr>proxyPassword := val\<rparr>)
      else (Inr (cfg\<lparr>Params := (Params cfg)(key \<mapsto> val)\<rparr>), px))"

text \<open>One iteration: a piece without \<open>=\<close> is skipped (\<open>continue\<close>); an escape error or
  a conversion error ends parseDSNParams.\<close>

definition parseDSNParams_pair ::
  "Config \<Rightarrow> proxy \<Rightarrow> string \<Rightarrow> (error + Config) \<times> proxy" where
  "parseDSNParams_pair cfg px v =
     (let param = SplitN v ''='' 2 in
      if length param \<noteq> 2 then (Inr cfg, px)
      else
        (case QueryUnescape (param ! 1) of
           Inl err \<Rightarrow> (Inl err, px)
         | Inr val \<Rightarrow> parseDSNParams_switch cfg px (param ! 0) val))"

fun parseDSNParams_loop ::
  "Config \<Rightarrow> proxy \<Rightarrow> string list \<Rightarrow> (error + Config) \<times> proxy" where
  "parseDSNParams_loop cfg px [] = (Inr cfg, px)"
| "parseDSNParams_loop cfg px (v # vs) =
     (case parseDSNParams_pair cfg px v of
        (Inl err, px') \<Rightarrow> (Inl err, px')
      | (Inr cfg', px') \<Rightarrow> parseDSNParams_loop cfg' px' vs)"

definition parseDSNParams :: "Config \<Rightarrow> proxy \<Rightarrow> string \<Rightarrow> (error + Config) \<times> proxy" where
  "parseDSNParams cfg px params = parseDSNParams_loop cfg px (Split params ''&'')"

definition parseParams :: "Config \<Rightarrow> proxy \<Rightarrow> int \<Rightarrow> string \<Rightarrow> (error + Config) \<times> proxy" where
  "parseParams cfg px posQuestion dsn =
     (let j = scanFor CHR ''?'' dsn (nat (posQuestion + 1)) (length dsn) in
      if j < length dsn then parseDSNParams cfg px (slice_from dsn (int j + 1))
      else (Inr cfg, px))"

text \<open>The inner loop of the slash branch (\<open>for j = i - 1; j >= 0; j--\<close>); the nat argument
  is \<open>j + 1\<close>. It stops at the first \<open>@\<close> to the left and records the leftmost \<open>/\<close> seen
  before it. The result is \<open>(j, cfg, secondSlash, posSecondSlash)\<close> as the loop leaves
  them; \<open>j = -1\<close> when there is no \<open>@\<close>.\<close>

fun ParseDSN_slash_loop ::
  "string \<Rightarrow> nat \<Rightarrow> Config \<Rightarrow> bool \<Rightarrow> int \<Rightarrow> int \<times> Config \<times> bool \<times> int" where
  "ParseDSN_slash_loop dsn 0 cfg secondSlash posSecondSlash =
     (-1, cfg, secondSlash, posSecondSlash)"
| "ParseDSN_slash_loop dsn (Suc j) cfg secondSlash posSecondSlash =
     (if dsn ! j = CHR ''/'' then ParseDSN_slash_loop dsn j cfg True (int j)
      else if dsn ! j = CHR ''@'' then
        (case parseUserPassword (int j) dsn of
           (user, password) \<Rightarrow>
             (int j, cfg\<lparr>User := user, Password := password\<rparr>, secondSlash, posSecondSlash))
      else ParseDSN_slash_loop dsn j cfg secondSlash posSecondSlash)"

text \<open>The case \<open>dsn[i] == '/'\<close> of the outer loop, in two parts. First the block
  \<open>if i > 0 { ... }\<close>: the inner loop and parseAccountHostPort. Its result is the Config with
  \<open>secondSlash\<close> and \<open>posSecondSlash\<close>, or the error that ParseDSN returns there.\<close>

definition ParseDSN_slash_target ::
  "string \<Rightarrow> nat \<Rightarrow> Config \<Rightarrow> error + Config \<times> bool \<times> int" where
  "ParseDSN_slash_target dsn i cfg =
     (if i > 0 then
        (case ParseDSN_slash_loop dsn i cfg False (int i) of
           (j, cfg, secondSlash, posSecondSlash) \<Rightarrow>
             (case parseAccountHostPort j posSecondSlash dsn of
                Inl err \<Rightarrow> Inl err
              | Inr (region, account, host, port) \<Rightarrow>
                  Inr (cfg\<lparr>Region := region, Account := account, Host := host, Port := port\<rparr>,
                       secondSlash, posSecondSlash)))
      else Inr (cfg, False, int i))"

text \<open>Then parseParams and the assignments of database and schema.\<close>

definition ParseDSN_slash ::
  "string \<Rightarrow> nat \<Rightarrow> int \<Rightarrow> Config \<Rightarrow> proxy \<Rightarrow> (error + Config) \<times> proxy" where
  "ParseDSN_slash dsn i posQuestion cfg px =
     (case ParseDSN_slash_target dsn i cfg of
        Inl err \<Rightarrow> (Inl err, px)
      | Inr (cfg, secondSlash, posSecondSlash) \<Rightarrow>
          (case parseParams cfg px (int i) dsn of
             (Inl err, px) \<Rightarrow> (Inl err, px)
           | (Inr cfg, px) \<Rightarrow>
               (if secondSlash then
                  (Inr (cfg\<lparr>Database := slice dsn (posSecondSlash + 1) (int i),
                             Schema := slice dsn (int i + 1) posQuestion\<rparr>), px)
                else
                  (Inr (cfg\<lparr>Database := slice dsn (posSecondSlash + 1) posQuestion,
                             Schema := ''public''\<rparr>), px))))"

text \<open>The outer loop (\<open>for i = len(dsn) - 1; i >= 0; i--\<close>); the nat argument is \<open>i + 1\<close>.
  The result is \<open>(foundSlash, posQuestion, (err or cfg), proxy variables)\<close>.\<close>

fun ParseDSN_loop ::
  "string \<Rightarrow> nat \<Rightarrow> int \<Rightarrow> Config \<Rightarrow> proxy \<Rightarrow> bool \<times> int \<times> (error + Config) \<times> proxy" where
  "ParseDSN_loop dsn 0 posQuestion cfg px = (False, posQuestion, Inr cfg, px)"
| "ParseDSN_loop dsn (Suc i) posQuestion cfg px =
     (if dsn ! i = CHR ''/'' then
        (case ParseDSN_slash dsn i posQuestion cfg px of (r, px) \<Rightarrow> (True, posQuestion, r, px))
      else if dsn ! i = CHR ''?'' then ParseDSN_loop dsn i (int i) cfg px
      else ParseDSN_loop dsn i posQuestion cfg px)"

text \<open>The loop of the branch \<open>!foundSlash\<close> (\<open>for j = len(dsn) - 1; j >= 0; j--\<close>); the
  nat argument is \<open>j + 1\<close>. The result is \<open>(j, cfg, posQuestion)\<close>.\<close>

fun ParseDSN_noslash_loop ::
  "string \<Rightarrow> nat \<Rightarrow> Config \<Rightarrow> int \<Rightarrow> int \<times> Config \<times> int" where
  "ParseDSN_noslash_loop dsn 0 cfg posQuestion = (-1, cfg, posQuestion)"
| "ParseDSN_noslash_loop dsn (Suc j) cfg posQuestion =
     (if dsn ! j = CHR ''@'' then
        (case parseUserPassword (int j) dsn of
           (user, password) \<Rightarrow> (int j, cfg\<lparr>User := user, Password := password\<rparr>, posQuestion))
      else if dsn ! j = CHR ''?'' then ParseDSN_noslash_loop dsn j cfg (int j)
      else ParseDSN_noslash_loop dsn j cfg posQuestion)"

definition ParseDSN_noslash ::
  "string \<Rightarrow> int \<Rightarrow> Config \<Rightarrow> proxy \<Rightarrow> (error + Config) \<times> proxy" where
  "ParseDSN_noslash dsn posQuestion cfg px =
     (case ParseDSN_noslash_loop dsn (length dsn) cfg posQuestion of
        (j, cfg, posQuestion) \<Rightarrow>
          (case parseAccountHostPort j posQuestion dsn of
             Inl err \<Rightarrow> (Inl err, px)
           | Inr (region, account, host, port) \<Rightarrow>
               parseParams (cfg\<lparr>Region := region, Account := account, Host := host, Port := port\<rparr>)
                 px (posQuestion - 1) dsn))"

text \<open>The Config that \<open>ParseDSN\<close> starts from: every field zero, \<open>Params\<close> an empty map.\<close>

definition newConfig :: Config where
  "newConfig =
     \<lparr>Account = [], User = [], Password = [], Database = [], Schema = [], Warehouse = [],
      Role = [], Region = [], Params = Map.empty, Protocol = [], Host = [], Port = 0,
      Authenticator = [], Passcode = [], PasscodeInPassword = False, LoginTimeout = 0,
      RequestTimeout = 0, Application = [], InsecureMode = False\<rparr>"

text \<open>Segment parsing: everything \<open>ParseDSN\<close> does up to the end of the branch
  \<open>!foundSlash\<close>.\<close>

definition ParseDSN_segments :: "proxy \<Rightarrow> string \<Rightarrow> (error + Config) \<times> proxy" where
  "ParseDSN_segments px dsn =
     (case ParseDSN_loop dsn (length dsn) (int (length dsn)) newConfig px of
        (foundSlash, posQuestion, r, px) \<Rightarrow>
          (case r of
             Inl err \<Rightarrow> (Inl err, px)
           | Inr cfg \<Rightarrow>
               if \<not> foundSlash then ParseDSN_noslash dsn posQuestion cfg px else (Inr cfg, px)))"

text \<open>The account taken from a host of the Snowflake domain when no account was given.\<close>

definition ParseDSN_account :: "Config \<Rightarrow> Config" where
  "ParseDSN_account cfg =
     (if Account cfg = [] \<and> HasSuffix (Host cfg) ''.snowflakecomputing.com'' then
        (let posDot = Index (Host cfg) ''.'' in
         if posDot > 0 then cfg\<lparr>Account := slice (Host cfg) 0 posDot\<rparr> else cfg)
      else cfg)"

text \<open>The second unescaping of database, schema, role and warehouse.\<close>

definition ParseDSN_unescape :: "Config \<Rightarrow> error + Config" where
  "ParseDSN_unescape cfg =
     (case QueryUnescape (Database cfg) of
        Inl err \<Rightarrow> Inl err
      | Inr s \<Rightarrow>
          (let cfg = cfg\<lparr>Database := s\<rparr> in
           case QueryUnescape (Schema cfg) of
             Inl err \<Rightarrow> Inl err
           | Inr s \<Rightarrow>
               (let cfg = cfg\<lparr>Schema := s\<rparr> in
                case QueryUnescape (Role cfg) of
                  Inl err \<Rightarrow> Inl err
                | Inr s \<Rightarrow>
                    (let cfg = cfg\<lparr>Role := s\<rparr> in
                     case QueryUnescape (Warehouse cfg) of
                       Inl err \<Rightarrow> Inl err
                     | Inr s \<Rightarrow> Inr (cfg\<lparr>Warehouse := s\<rparr>)))))"

text \<open>\<open>ParseDSN\<close>: the result \<open>(cfg, err)\<close> as \<open>error + Config\<close> (whenever \<open>err\<close> is not nil the
  model gives the error alone), together with the proxy variables after the call.\<close>

definition ParseDSN :: "string \<Rightarrow> proxy \<Rightarrow> string \<Rightarrow> (error + Config) \<times> proxy" where
  "ParseDSN clientType px dsn =
     (case ParseDSN_segments px dsn of
        (Inl err, px) \<Rightarrow> (Inl err, px)
      | (Inr cfg, px) \<Rightarrow>
          (case fillMissingConfigParameters clientType (ParseDSN_account cfg) of
             Inl err \<Rightarrow> (Inl err, px)
           | Inr cfg \<Rightarrow> (ParseDSN_unescape cfg, px)))"

text \<open>The proxy variables before any DSN has been parsed.\<close>

definition noProxy :: proxy where
  "noProxy = \<lparr>proxyHost = [], proxyPort = 0, proxyUser = [], proxyPassword = []\<rparr>"

text \<open>The host that fillMissingConfigParameters leaves: the region is inserted before
  the domain when the part of the host before the domain does not end with it.\<close>

definition fill_host :: "Config \<Rightarrow> string" where
  "fill_host cfg =
     (if Region cfg \<noteq> [] \<and> Index (Host cfg) ''.snowflakecomputing.com'' \<ge> 1
         \<and> \<not> HasSuffix (slice (Host cfg) 0 (Index (Host cfg) ''.snowflakecomputing.com'')) (Region cfg)
      then slice (Host cfg) 0 (Index (Host cfg) ''.snowflakecomputing.com'') @ ''.'' @ Region cfg
           @ ''.snowflakecomputing.com''
      else Host cfg)"

text \<open>The keys that the \<open>switch\<close> of parseDSNParams has a case for.\<close>

definition recognizedKeys :: "string list" where
  "recognizedKeys =
     [''account'', ''warehouse'', ''database'', ''schema'', ''role'', ''region'', ''protocol'',
      ''passcode'', ''passcodeInPassword'', ''loginTimeout'', ''application'',
      ''authenticator'', ''insecureMode'', ''proxyHost'', ''proxyPort'', ''proxyUser'',
      ''proxyPassword'']"

section \<open>Facts about the string functions\<close>

lemma HasPrefix_single: "HasPrefix (x # s) [c] = (x = c)"
  by (simp add: HasPrefix_def)

lemma Index_single:
  "Index s [c] = (if c \<in> set s then int (length (takeWhile (\<lambda>x. x \<noteq> c) s)) else -1)"
  by (induction s) (auto simp: HasPrefix_single Let_def)

lemma scanFor_stop: "hi \<le> k \<Longrightarrow> scanFor c s k hi = k"
  by (simp add: scanFor.simps [of c s k hi])

lemma scanFor_step:
  "k < hi \<Longrightarrow> scanFor c s k hi = (if s ! k = c then k else scanFor c s (Suc k) hi)"
  by (simp add: scanFor.simps [of c s k hi])

lemma scanFor_append:
  "scanFor c (pre @ s) (length pre + k) (length pre + hi) = length pre + scanFor c s k hi"
proof (induction c s k hi rule: scanFor.induct)
  case (1 c dsn k hi)
  show ?case
  proof (cases "k < hi")
    case True
    then show ?thesis
      using 1 by (simp add: scanFor_step nth_append)
  next
    case False
    then show ?thesis by (simp add: scanFor_stop)
  qed
qed

lemma scanFor_takeWhile_aux:
  "k \<le> hi \<Longrightarrow> hi \<le> length s \<Longrightarrow>
   scanFor c s k hi = k + length (takeWhile (\<lambda>x. x \<noteq> c) (drop k (take hi s)))"
proof (induction c s k hi rule: scanFor.induct)
  case (1 c dsn k hi)
  show ?case
  proof (cases "k < hi")
    case True
    then have d: "drop k (take hi dsn) = dsn ! k # drop (Suc k) (take hi dsn)"
      using "1.prems" Cons_nth_drop_Suc [of k "take hi dsn", symmetric] by simp
    show ?thesis
      using True "1.IH" "1.prems" d by (simp add: scanFor_step)
  next
    case False
    then show ?thesis using "1.prems" by (simp add: scanFor_stop)
  qed
qed

lemma scanFor_takeWhile:
  "hi \<le> length s \<Longrightarrow> scanFor c s 0 hi = length (takeWhile (\<lambda>x. x \<noteq> c) (take hi s))"
  using scanFor_takeWhile_aux [of 0 hi s c] by simp

lemma slice_append_mid:
  "slice (pre @ s @ post) (int (length pre)) (int (length pre) + int (length s)) = s"
  by (simp add: slice_def)

lemma slice_mid:
  "lo = int (length pre) \<Longrightarrow> hi = lo + int (length seg) \<Longrightarrow> slice (pre @ seg @ post) lo hi = seg"
  by (simp add: slice_def)

lemma takeWhile_absent: "c \<notin> set s \<Longrightarrow> takeWhile (\<lambda>x. x \<noteq> c) s = s"
  by (induction s) auto

lemma scanFor_absent:
  assumes "c \<notin> set seg" "k = length pre" "hi = length pre + length seg"
  shows "scanFor c (pre @ seg @ post) k hi = hi"
proof -
  have "scanFor c (seg @ post) 0 (length seg) = length seg"
    using assms(1) by (simp add: scanFor_takeWhile takeWhile_absent)
  then show ?thesis
    using scanFor_append [of c pre "seg @ post" 0 "length seg"] assms(2,3) by simp
qed

lemma parseAccountHostPort_account:
  assumes "CHR '':'' \<notin> set seg" "\<not> HasSuffix seg ''snowflakecomputing.com''"
  shows "parseAccountHostPort (int (length pre) - 1) (int (length pre) + int (length seg))
           (pre @ seg @ post) =
         (let posDot = Index seg ''.'' in
          if posDot > 0
          then Inr (slice_from seg (posDot + 1), slice seg 0 posDot,
                    seg @ ''.snowflakecomputing.com'', 443)
          else Inr ([], seg, seg @ ''.snowflakecomputing.com'', 443))"
proof -
  have k: "scanFor CHR '':'' (pre @ seg @ post) (nat (int (length pre) - 1 + 1))
             (nat (int (length pre) + int (length seg))) = length pre + length seg"
    using assms(1) by (simp add: scanFor_absent nat_add_distrib)
  show ?thesis
    unfolding parseAccountHostPort_def k
    using assms(2) by (simp add: slice_mid Let_def del: Index.simps)
qed

lemma fill_empty_account:
  "Account cfg = [] \<Longrightarrow> fillMissingConfigParameters clientType cfg = Inl ErrEmptyAccount"
  by (simp add: fillMissingConfigParameters_def)

lemma ParseDSN_user_pass_db:
  "ParseDSN clientType px ''user:pass@/db'' = (Inl ErrEmptyAccount, px)"
proof -
  have "case ParseDSN clientType px ''user:pass@/db'' of
          (Inl err, px') \<Rightarrow> err = ErrEmptyAccount \<and> px' = px
        | (Inr cfg, px') \<Rightarrow> False"
    by code_simp
  then show ?thesis
    by (simp split: prod.splits sum.splits)
qed

section \<open>Parsing: the examples\<close>

text \<open>
  Claim C2. Parsing \<open>user:pass@acc/db/sch?warehouse=wh\<close> succeeds, with user \<open>user\<close>,
  password \<open>pass\<close>, account \<open>acc\<close>, host \<open>acc.snowflakecomputing.com\<close>, port 443,
  database \<open>db\<close>, schema \<open>sch\<close> and warehouse \<open>wh\<close>, whatever the client type and the
  proxy variables are.
\<close>

theorem ParseDSN_example:
  "case ParseDSN clientType px ''user:pass@acc/db/sch?warehouse=wh'' of
     (Inl err, px') \<Rightarrow> False
   | (Inr cfg, px') \<Rightarrow>
       User cfg = ''user'' \<and> Password cfg = ''pass'' \<and> Account cfg = ''acc''
       \<and> Host cfg = ''acc.snowflakecomputing.com'' \<and> Port cfg = 443
       \<and> Database cfg = ''db'' \<and> Schema cfg = ''sch'' \<and> Warehouse cfg = ''wh''"
  by code_simp

text \<open>
  Claim C7. When the account/host segment of a DSN is \<open>ab.us-east-1\<close> (wherever it stands
  in the DSN, no port, not a host of the Snowflake domain), parseAccountHostPort splits it
  at the first dot: account \<open>ab\<close>, region \<open>us-east-1\<close>, host
  \<open>ab.us-east-1.snowflakecomputing.com\<close>, port 443.
\<close>

theorem parseAccountHostPort_embedded_region:
  "parseAccountHostPort (int (length pre) - 1) (int (length pre) + 12)
     (pre @ ''ab.us-east-1'' @ post) =
   Inr (''us-east-1'', ''ab'', ''ab.us-east-1.snowflakecomputing.com'', 443)"
  using parseAccountHostPort_account [of "''ab.us-east-1''" pre post]
  by (simp add: HasSuffix_def Index_single slice_def slice_from_def)

section \<open>The account taken from the host\<close>

lemma if_update:
  "(if c then r\<lparr>Protocol := s\<rparr> else r) = r\<lparr>Protocol := (if c then s else Protocol r)\<rparr>"
  "(if c then r\<lparr>Port := p\<rparr> else r) = r\<lparr>Port := (if c then p else Port r)\<rparr>"
  "(if c then r\<lparr>Host := s\<rparr> else r) = r\<lparr>Host := (if c then s else Host r)\<rparr>"
  "(if c then r\<lparr>LoginTimeout := p\<rparr> else r) = r\<lparr>LoginTimeout := (if c then p else LoginTimeout r)\<rparr>"
  "(if c then r\<lparr>RequestTimeout := p\<rparr> else r) = r\<lparr>RequestTimeout := (if c then p else RequestTimeout r)\<rparr>"
  "(if c then r\<lparr>Application := s\<rparr> else r) = r\<lparr>Application := (if c then s else Application r)\<rparr>"
  "(if c then r\<lparr>Authenticator := s\<rparr> else r) = r\<lparr>Authenticator := (if c then s else Authenticator r)\<rparr>"
  for r :: Config
  by simp_all

lemma fill_explicit:
  assumes "Account cfg \<noteq> []" "User cfg \<noteq> []" "Password cfg \<noteq> []"
  shows "fillMissingConfigParameters clientType cfg =
    Inr (cfg\<lparr>Protocol := (if Protocol cfg = [] then ''https'' else Protocol cfg),
             Port := (if Port cfg = 0 then 443 else Port cfg),
             Host := fill_host cfg,
             LoginTimeout := (if LoginTimeout cfg = 0 then defaultLoginTimeout else LoginTimeout cfg),
             Application := (if Application cfg = [] then clientType else Application cfg),
             Authenticator := (if Authenticator cfg = [] then defaultAuthenticator else Authenticator cfg)\<rparr>)"
  using assms unfolding fillMissingConfigParameters_def fill_host_def
  by (simp add: if_update Let_def defaultRequestTimeout_def cong: if_cong)

lemma fill_cases:
  "fillMissingConfigParameters clientType cfg =
     (if Account cfg = [] then Inl ErrEmptyAccount
      else if User cfg = [] then Inl ErrEmptyUsername
      else if Password cfg = [] then Inl ErrEmptyPassword
      else Inr (cfg\<lparr>Protocol := (if Protocol cfg = [] then ''https'' else Protocol cfg),
             Port := (if Port cfg = 0 then 443 else Port cfg),
             Host := fill_host cfg,
             LoginTimeout := (if LoginTimeout cfg = 0 then defaultLoginTimeout else LoginTimeout cfg),
             Application := (if Application cfg = [] then clientType else Application cfg),
             Authenticator := (if Authenticator cfg = [] then defaultAuthenticator else Authenticator cfg)\<rparr>))"
  using fill_explicit [of cfg clientType]
  by (simp add: fillMissingConfigParameters_def)

lemma unescape_check_EscapeError: "unescape_check s = Some e \<Longrightarrow> \<exists>x. e = EscapeError x"
proof (induction s rule: unescape_check.induct)
  case 1
  then show ?case by simp
next
  case (2 c s)
  show ?case
  proof (cases "c = CHR ''%''")
    case False
    then show ?thesis using 2 by simp
  next
    case True
    show ?thesis
    proof (cases s)
      case Nil
      then show ?thesis using True "2.prems" by auto
    next
      case (Cons h1 t)
      show ?thesis
      proof (cases t)
        case Nil
        then show ?thesis using True Cons "2.prems" by auto
      next
        case (Cons h2 rest)
        show ?thesis
        proof (cases "ishex h1 \<and> ishex h2")
          case True
          then show ?thesis
            using \<open>c = CHR ''%''\<close> \<open>s = h1 # t\<close> Cons "2.IH"(1) "2.prems" by simp
        next
          case False
          then show ?thesis
            using \<open>c = CHR ''%''\<close> \<open>s = h1 # t\<close> Cons "2.prems" by auto
        qed
      qed
    qed
  qed
qed

lemma unescape_explicit:
  "ParseDSN_unescape cfg = Inr cfg' \<Longrightarrow>
   \<exists>d s r w. QueryUnescape (Database cfg) = Inr d \<and> QueryUnescape (Schema cfg) = Inr s
     \<and> QueryUnescape (Role cfg) = Inr r \<and> QueryUnescape (Warehouse cfg) = Inr w
     \<and> cfg' = cfg\<lparr>Database := d, Schema := s, Role := r, Warehouse := w\<rparr>"
  unfolding ParseDSN_unescape_def Let_def
  by (simp split: sum.splits)

lemma HasSuffix_dot_mem:
  assumes "HasSuffix h ''.snowflakecomputing.com''"
  shows "CHR ''.'' \<in> set h"
proof -
  have "CHR ''.'' \<in> set (drop (length h - length ''.snowflakecomputing.com'') h)"
    using assms unfolding HasSuffix_def by simp
  then show ?thesis
    by (rule in_set_dropD)
qed

lemma ParseDSN_account_from_host:
  assumes "Account cfg = []" "HasSuffix (Host cfg) ''.snowflakecomputing.com''"
    "\<not> HasPrefix (Host cfg) ''.''"
  shows "ParseDSN_account cfg = cfg\<lparr>Account := takeWhile (\<lambda>c. c \<noteq> CHR ''.'') (Host cfg)\<rparr>"
    and "takeWhile (\<lambda>c. c \<noteq> CHR ''.'') (Host cfg) \<noteq> []"
proof -
  let ?h = "Host cfg"
  have mem: "CHR ''.'' \<in> set ?h"
    using assms(2) by (rule HasSuffix_dot_mem)
  then obtain x xs where h: "?h = x # xs"
    by (cases ?h) auto
  have x: "x \<noteq> CHR ''.''"
    using assms(3) h by (simp add: HasPrefix_single)
  show ne: "takeWhile (\<lambda>c. c \<noteq> CHR ''.'') ?h \<noteq> []"
    using h x by simp
  have idx: "Index ?h ''.'' = int (length (takeWhile (\<lambda>c. c \<noteq> CHR ''.'') ?h))"
    using mem by (simp add: Index_single)
  have pos: "Index ?h ''.'' > 0"
    using ne idx by simp
  have "slice ?h 0 (Index ?h ''.'') = takeWhile (\<lambda>c. c \<noteq> CHR ''.'') ?h"
    unfolding idx slice_def by (simp add: takeWhile_eq_take [symmetric])
  then show "ParseDSN_account cfg = cfg\<lparr>Account := takeWhile (\<lambda>c. c \<noteq> CHR ''.'') ?h\<rparr>"
    using assms(1,2) pos unfolding ParseDSN_account_def by (simp add: Let_def)
qed

lemma ParseDSN_host_443:
  "case ParseDSN clientType px ''user:pass@ab.snowflakecomputing.com:443'' of
     (Inl err, px') \<Rightarrow> False
   | (Inr cfg, px') \<Rightarrow>
       Account cfg = ''ab'' \<and> Host cfg = ''ab.snowflakecomputing.com'' \<and> Port cfg = 443"
  by code_simp

text \<open>
  Claim C9. If segment parsing leaves the account empty, the host ends with
  \<open>.snowflakecomputing.com\<close> and does not start with a dot, then ParseDSN takes the account
  from the host: the bytes before its first dot. So the parse does not fail with
  ErrEmptyAccount, and a Config it returns carries that account; the DSN
  \<open>user:pass@ab.snowflakecomputing.com:443\<close> parses with account \<open>ab\<close>.
\<close>

theorem ParseDSN_account_taken_from_host:
  "(Account cfg = [] \<and> HasSuffix (Host cfg) ''.snowflakecomputing.com''
      \<and> \<not> HasPrefix (Host cfg) ''.'' \<longrightarrow>
      ParseDSN_account cfg = cfg\<lparr>Account := takeWhile (\<lambda>c. c \<noteq> CHR ''.'') (Host cfg)\<rparr>
      \<and> Account (ParseDSN_account cfg) \<noteq> [])
   \<and> (ParseDSN_segments px dsn = (Inr cfg, px') \<and> Account cfg = []
      \<and> HasSuffix (Host cfg) ''.snowflakecomputing.com'' \<and> \<not> HasPrefix (Host cfg) ''.'' \<longrightarrow>
      fst (ParseDSN clientType px dsn) \<noteq> Inl ErrEmptyAccount
      \<and> (\<forall>cfg'. fst (ParseDSN clientType px dsn) = Inr cfg' \<longrightarrow>
            Account cfg' = takeWhile (\<lambda>c. c \<noteq> CHR ''.'') (Host cfg)))
   \<and> (case ParseDSN clientType px ''user:pass@ab.snowflakecomputing.com:443'' of
         (Inl err, px') \<Rightarrow> False
       | (Inr cfg, px') \<Rightarrow>
           Account cfg = ''ab'' \<and> Host cfg = ''ab.snowflakecomputing.com'' \<and> Port cfg = 443)"
proof (intro conjI impI)
  assume a: "Account cfg = [] \<and> HasSuffix (Host cfg) ''.snowflakecomputing.com''
      \<and> \<not> HasPrefix (Host cfg) ''.''"
  then show "ParseDSN_account cfg = cfg\<lparr>Account := takeWhile (\<lambda>c. c \<noteq> CHR ''.'') (Host cfg)\<rparr>"
    by (simp add: ParseDSN_account_from_host(1))
  with a show "Account (ParseDSN_account cfg) \<noteq> []"
    by (simp add: ParseDSN_account_from_host(2))
next
  assume a: "ParseDSN_segments px dsn = (Inr cfg, px') \<and> Account cfg = []
      \<and> HasSuffix (Host cfg) ''.snowflakecomputing.com'' \<and> \<not> HasPrefix (Host cfg) ''.''"
  let ?acc = "takeWhile (\<lambda>c. c \<noteq> CHR ''.'') (Host cfg)"
  have pa: "ParseDSN_account cfg = cfg\<lparr>Account := ?acc\<rparr>" and ne: "?acc \<noteq> []"
    using a by (simp_all add: ParseDSN_account_from_host)
  have P: "ParseDSN clientType px dsn =
      (case fillMissingConfigParameters clientType (cfg\<lparr>Account := ?acc\<rparr>) of
         Inl err \<Rightarrow> (Inl err, px') | Inr c \<Rightarrow> (ParseDSN_unescape c, px'))"
    using a pa by (simp add: ParseDSN_def)
  have f: "fillMissingConfigParameters clientType (cfg\<lparr>Account := ?acc\<rparr>) \<noteq> Inl ErrEmptyAccount"
    using ne by (simp add: fill_cases)
  have u: "ParseDSN_unescape c \<noteq> Inl ErrEmptyAccount" for c
    by (auto simp: ParseDSN_unescape_def QueryUnescape_def Let_def
        split: sum.splits option.splits dest!: unescape_check_EscapeError)
  show "fst (ParseDSN clientType px dsn) \<noteq> Inl ErrEmptyAccount"
    using f u by (auto simp: P split: sum.splits)
  show "\<forall>cfg'. fst (ParseDSN clientType px dsn) = Inr cfg' \<longrightarrow> Account cfg' = ?acc"
  proof (intro allI impI)
    fix cfg'
    assume r: "fst (ParseDSN clientType px dsn) = Inr cfg'"
    then obtain c where c: "fillMissingConfigParameters clientType (cfg\<lparr>Account := ?acc\<rparr>) = Inr c"
      and c': "ParseDSN_unescape c = Inr cfg'"
      by (auto simp: P split: sum.splits)
    have "Account c = ?acc"
      using c by (auto simp: fill_cases split: if_splits)
    moreover have "Account cfg' = Account c"
      using unescape_explicit [OF c'] by auto
    ultimately show "Account cfg' = ?acc"
      by simp
  qed
next
  show "case ParseDSN clientType px ''user:pass@ab.snowflakecomputing.com:443'' of
         (Inl err, px') \<Rightarrow> False
       | (Inr cfg, px') \<Rightarrow>
           Account cfg = ''ab'' \<and> Host cfg = ''ab.snowflakecomputing.com'' \<and> Port cfg = 443"
    by (rule ParseDSN_host_443)
qed

theorem ParseDSN_account_taken_from_host_witness:
  "ParseDSN_segments noProxy ''u:p@a.snowflakecomputing.com:1'' =
     (Inr (newConfig\<lparr>User := ''u'', Password := ''p'', Host := ''a.snowflakecomputing.com'',
             Port := 1\<rparr>), noProxy)
   \<and> ParseDSN_account (newConfig\<lparr>User := ''u'', Password := ''p'',
         Host := ''a.snowflakecomputing.com'', Port := 1\<rparr>) =
       newConfig\<lparr>User := ''u'', Password := ''p'', Host := ''a.snowflakecomputing.com'',
         Port := 1, Account := ''a''\<rparr>
   \<and> fst (ParseDSN ''Go'' noProxy ''u:p@a.snowflakecomputing.com:1'') \<noteq> Inl ErrEmptyAccount"
proof -
  let ?cfg = "newConfig\<lparr>User := ''u'', Password := ''p'', Host := ''a.snowflakecomputing.com'',
               Port := 1\<rparr>"
  have seg: "ParseDSN_segments noProxy ''u:p@a.snowflakecomputing.com:1'' = (Inr ?cfg, noProxy)"
    by (simp add: ParseDSN_segments_def ParseDSN_noslash_def parseUserPassword_def
        parseAccountHostPort_def parseParams_def scanFor.simps slice_def slice_from_def
        HasSuffix_def newConfig_def eval_nat_numeral Let_def
        Atoi_def parseInt64_def ParseUint_def isdigit_def digitval_def less_eq_char_def)
  have hyp: "Account ?cfg = [] \<and> HasSuffix (Host ?cfg) ''.snowflakecomputing.com''
      \<and> \<not> HasPrefix (Host ?cfg) ''.''"
    by (simp add: newConfig_def HasSuffix_def HasPrefix_def)
  show ?thesis
    using ParseDSN_account_taken_from_host [of ?cfg noProxy "''u:p@a.snowflakecomputing.com:1''"
        noProxy "''Go''"] seg hyp
    by (simp add: newConfig_def)
qed

section \<open>Query pairs without an equals sign\<close>

text \<open>The equations that evaluate a parse of a concrete DSN.\<close>

lemmas parse_eval = ParseDSN_def ParseDSN_segments_def ParseDSN_slash_def
  ParseDSN_slash_target_def ParseDSN_noslash_def
  parseUserPassword_def parseAccountHostPort_def parseParams_def parseDSNParams_def
  parseDSNParams_pair_def parseDSNParams_switch_def Split_def scanFor.simps slice_def
  slice_from_def HasSuffix_def HasPrefix_def ParseDSN_account_def fill_cases fill_host_def
  ParseDSN_unescape_def QueryUnescape_def Atoi_def ParseInt_def parseInt64_def ParseUint_def
  ParseBool_def isdigit_def digitval_def ishex_def unhex_def less_eq_char_def
  defaultLoginTimeout_def defaultAuthenticator_def Second_def newConfig_def eval_nat_numeral
  Let_def

lemma Index_absent: "c \<notin> set s \<Longrightarrow> Index s [c] = -1"
  by (simp add: Index_single)

lemma parseDSNParams_pair_skip: "CHR ''='' \<notin> set v \<Longrightarrow> parseDSNParams_pair cfg px v = (Inr cfg, px)"
  unfolding parseDSNParams_pair_def by (simp add: Index_absent eval_nat_numeral)

lemma parseDSNParams_loop_filter:
  "parseDSNParams_loop cfg px vs =
   parseDSNParams_loop cfg px (filter (\<lambda>v. CHR ''='' \<in> set v) vs)"
proof (induction vs arbitrary: cfg px)
  case Nil
  show ?case by simp
next
  case (Cons v vs)
  show ?case
  proof (cases "CHR ''='' \<in> set v")
    case True
    then show ?thesis
      using Cons by (simp split: prod.splits sum.splits)
  next
    case False
    then show ?thesis
      using Cons by (simp add: parseDSNParams_pair_skip)
  qed
qed

text \<open>
  Claim C6. A piece of the query string that contains no \<open>=\<close> is skipped without an
  error and without any effect, and the other pieces are processed as if it were not
  there: parseDSNParams gives the same result on the query string as its loop gives on
  the pieces that do contain \<open>=\<close>. For the query \<open>foo&warehouse=wh\<close> the parse succeeds with
  warehouse \<open>wh\<close>, exactly as for the query \<open>warehouse=wh\<close>.
\<close>

theorem parseDSNParams_skips_malformed:
  "(CHR ''='' \<notin> set v \<longrightarrow> parseDSNParams_pair cfg px v = (Inr cfg, px))
   \<and> parseDSNParams cfg px params =
       parseDSNParams_loop cfg px (filter (\<lambda>v. CHR ''='' \<in> set v) (Split params ''&''))
   \<and> ParseDSN clientType px ''user:pass@acc?foo&warehouse=wh'' =
       (Inr (newConfig\<lparr>Account := ''acc'', User := ''user'', Password := ''pass'',
               Warehouse := ''wh'', Protocol := ''https'',
               Host := ''acc.snowflakecomputing.com'', Port := 443,
               Authenticator := ''snowflake'', LoginTimeout := 60000000000,
               Application := clientType\<rparr>), px)
   \<and> ParseDSN clientType px ''user:pass@acc?foo&warehouse=wh'' =
       ParseDSN clientType px ''user:pass@acc?warehouse=wh''"
proof -
  have e1: "ParseDSN clientType px ''user:pass@acc?foo&warehouse=wh'' =
       (Inr (newConfig\<lparr>Account := ''acc'', User := ''user'', Password := ''pass'',
               Warehouse := ''wh'', Protocol := ''https'',
               Host := ''acc.snowflakecomputing.com'', Port := 443,
               Authenticator := ''snowflake'', LoginTimeout := 60000000000,
               Application := clientType\<rparr>), px)"
    by (simp add: parse_eval)
  have e2: "ParseDSN clientType px ''user:pass@acc?warehouse=wh'' =
       (Inr (newConfig\<lparr>Account := ''acc'', User := ''user'', Password := ''pass'',
               Warehouse := ''wh'', Protocol := ''https'',
               Host := ''acc.snowflakecomputing.com'', Port := 443,
               Authenticator := ''snowflake'', LoginTimeout := 60000000000,
               Application := clientType\<rparr>), px)"
    by (simp add: parse_eval)
  have f: "parseDSNParams cfg px params =
       parseDSNParams_loop cfg px (filter (\<lambda>v. CHR ''='' \<in> set v) (Split params ''&''))"
    unfolding parseDSNParams_def by (rule parseDSNParams_loop_filter)
  show ?thesis
    using e1 e2 f by (simp add: parseDSNParams_pair_skip)
qed

theorem parseDSNParams_skips_malformed_witness:
  "CHR ''='' \<notin> set ''foo'' \<and> parseDSNParams_pair newConfig noProxy ''foo'' = (Inr newConfig, noProxy)"
  using parseDSNParams_skips_malformed [of "''foo''" newConfig noProxy]
  by simp

section \<open>The query string of a DSN\<close>

text \<open>The scanning functions read the DSN only up to the bound they are given.\<close>

lemma scanFor_bounds: "k \<le> hi \<Longrightarrow> k \<le> scanFor c s k hi \<and> scanFor c s k hi \<le> hi"
proof (induction c s k hi rule: scanFor.induct)
  case (1 c dsn k hi)
  show ?case
  proof (cases "k < hi")
    case True
    then show ?thesis using "1.IH" by (auto simp: scanFor_step)
  next
    case False
    then show ?thesis using "1.prems" by (simp add: scanFor_stop)
  qed
qed

lemma scanFor_local:
  "hi \<le> length s \<Longrightarrow> scanFor c (s @ rest) k hi = scanFor c s k hi"
proof (induction c s k hi rule: scanFor.induct)
  case (1 c dsn k hi)
  show ?case
  proof (cases "k < hi")
    case True
    then show ?thesis using 1 by (simp add: scanFor_step nth_append)
  next
    case False
    then show ?thesis by (simp add: scanFor_stop)
  qed
qed

lemma slice_local:
  "0 \<le> lo \<Longrightarrow> hi \<le> int (length s) \<Longrightarrow> slice (s @ rest) lo hi = slice s lo hi"
  by (auto simp: slice_def)

lemma parseUserPassword_local:
  "j \<le> length s \<Longrightarrow> parseUserPassword (int j) (s @ rest) = parseUserPassword (int j) s"
  using scanFor_bounds [of 0 j "CHR '':''" s]
  by (simp add: parseUserPassword_def scanFor_local slice_local Let_def)

lemma parseAccountHostPort_local:
  assumes "-1 \<le> j" "j < int p" "p \<le> length s"
  shows "parseAccountHostPort j (int p) (s @ rest) = parseAccountHostPort j (int p) s"
proof -
  let ?k = "int (scanFor CHR '':'' s (nat (j + 1)) (nat (int p)))"
  have sc: "scanFor CHR '':'' (s @ rest) (nat (j + 1)) (nat (int p))
      = scanFor CHR '':'' s (nat (j + 1)) (nat (int p))"
    using assms(3) by (simp add: scanFor_local)
  have "nat (j + 1) \<le> p" using assms by simp
  then have "scanFor CHR '':'' s (nat (j + 1)) p \<le> p"
    using scanFor_bounds by blast
  then have b: "?k \<le> int (length s)"
    using assms(3) by simp
  have c: "int p \<le> int (length s)"
    using assms(3) by simp
  have h1: "slice (s @ rest) (j + 1) ?k = slice s (j + 1) ?k"
    using assms(1) b by (simp add: slice_local)
  have h2: "slice (s @ rest) (?k + 1) (int p) = slice s (?k + 1) (int p)"
    using c by (simp add: slice_local)
  show ?thesis
    unfolding parseAccountHostPort_def Let_def sc h1 h2 by (rule refl)
qed

lemma ParseDSN_slash_loop_local:
  "n \<le> length s \<Longrightarrow>
   ParseDSN_slash_loop (s @ rest) n cfg ss pss = ParseDSN_slash_loop s n cfg ss pss"
  by (induction n arbitrary: ss pss) (simp_all add: nth_append parseUserPassword_local)

lemma ParseDSN_noslash_loop_local:
  "n \<le> length s \<Longrightarrow>
   ParseDSN_noslash_loop (s @ rest) n cfg pq = ParseDSN_noslash_loop s n cfg pq"
  by (induction n arbitrary: pq) (simp_all add: nth_append parseUserPassword_local)


lemma parseDSNParams_switch_error:
  "fst (parseDSNParams_switch cfg px key val) = Inl e \<longleftrightarrow>
     ((key = ''passcodeInPassword'' \<or> key = ''insecureMode'') \<and> ParseBool val = Inl e)
   \<or> ((key = ''loginTimeout'' \<or> key = ''proxyPort'') \<and> ParseInt val = Inl e)"
  unfolding parseDSNParams_switch_def
  by (simp split: sum.splits)

lemma parseDSNParams_pair_error:
  "fst (parseDSNParams_pair cfg px v) = Inl e \<longleftrightarrow>
     length (SplitN v ''='' 2) = 2
     \<and> (QueryUnescape (SplitN v ''='' 2 ! 1) = Inl e
        \<or> (\<exists>val. QueryUnescape (SplitN v ''='' 2 ! 1) = Inr val
              \<and> fst (parseDSNParams_switch newConfig noProxy (SplitN v ''='' 2 ! 0) val) = Inl e))"
  unfolding parseDSNParams_pair_def Let_def
  by (auto simp: parseDSNParams_switch_error split: sum.splits)

lemma parseDSNParams_pair_error_indep:
  "fst (parseDSNParams_pair cfg px v) = Inl e \<Longrightarrow> fst (parseDSNParams_pair cfg' px' v) = Inl e"
  by (simp add: parseDSNParams_pair_error)

lemma parseDSNParams_pair_isl_indep:
  "isl (fst (parseDSNParams_pair cfg px v)) = isl (fst (parseDSNParams_pair cfg' px' v))"
proof -
  have "isl (fst (parseDSNParams_pair c p v)) \<longleftrightarrow> (\<exists>e. fst (parseDSNParams_pair newConfig noProxy v) = Inl e)"
    for c p
    by (metis isl_def parseDSNParams_pair_error_indep)
  then show ?thesis by simp
qed

lemma parseDSNParams_loop_error_indep:
  "fst (parseDSNParams_loop cfg px vs) = Inl e \<Longrightarrow> fst (parseDSNParams_loop cfg' px' vs) = Inl e"
proof (induction vs arbitrary: cfg px cfg' px')
  case Nil
  then show ?case by simp
next
  case (Cons v vs)
  obtain r p where rp: "parseDSNParams_pair cfg px v = (r, p)"
    by (cases "parseDSNParams_pair cfg px v")
  obtain r' p' where rp': "parseDSNParams_pair cfg' px' v = (r', p')"
    by (cases "parseDSNParams_pair cfg' px' v")
  show ?case
  proof (cases r)
    case (Inl err)
    then have "err = e" using Cons.prems rp by simp
    then have "fst (parseDSNParams_pair cfg' px' v) = Inl e"
      using parseDSNParams_pair_error_indep [of cfg px v e cfg' px'] rp Inl by simp
    then show ?thesis using rp' by simp
  next
    case (Inr c)
    then have "\<not> isl (fst (parseDSNParams_pair cfg' px' v))"
      using parseDSNParams_pair_isl_indep [of cfg px v cfg' px'] rp by simp
    then obtain c' where c': "r' = Inr c'"
      using rp' by (cases r') auto
    have "fst (parseDSNParams_loop c p vs) = Inl e"
      using Cons.prems rp Inr by simp
    then have "fst (parseDSNParams_loop c' p' vs) = Inl e"
      by (rule Cons.IH)
    then show ?thesis using rp' c' by simp
  qed
qed

lemma parseDSNParams_error_indep:
  "fst (parseDSNParams cfg px q) = Inl e \<Longrightarrow> fst (parseDSNParams cfg' px' q) = Inl e"
  unfolding parseDSNParams_def by (rule parseDSNParams_loop_error_indep)


lemma nth_query: "n < length q \<Longrightarrow> (body @ c # q) ! (Suc (length body + n)) = q ! n"
  by (simp add: nth_append)

lemma ParseDSN_loop_skip_query:
  assumes "CHR ''/'' \<notin> set q" "n \<le> length q"
  shows "ParseDSN_loop (body @ CHR ''?'' # q) (Suc (length body + n)) pq cfg px =
         ParseDSN_loop (body @ CHR ''?'' # q) (length body) (int (length body)) cfg px"
  using assms(2)
proof (induction n arbitrary: pq)
  case 0
  show ?case by (simp add: nth_append)
next
  case (Suc n)
  have "q ! n \<in> set q" using Suc.prems by simp
  then have ns: "q ! n \<noteq> CHR ''/''" using assms(1) by metis
  have nth: "(body @ CHR ''?'' # q) ! (Suc (length body + n)) = q ! n"
    using Suc.prems by (simp add: nth_query)
  show ?case
    using Suc.IH Suc.prems ns nth by simp
qed

lemma ParseDSN_noslash_loop_skip_query:
  assumes "CHR ''@'' \<notin> set q" "n \<le> length q"
  shows "ParseDSN_noslash_loop (body @ CHR ''?'' # q) (Suc (length body + n)) cfg pq =
         ParseDSN_noslash_loop (body @ CHR ''?'' # q) (length body) cfg (int (length body))"
  using assms(2)
proof (induction n arbitrary: pq)
  case 0
  show ?case by (simp add: nth_append)
next
  case (Suc n)
  have "q ! n \<in> set q" using Suc.prems by simp
  then have ns: "q ! n \<noteq> CHR ''@''" using assms(1) by metis
  have nth: "(body @ CHR ''?'' # q) ! (Suc (length body + n)) = q ! n"
    using Suc.prems by (simp add: nth_query)
  show ?case
    using Suc.IH Suc.prems ns nth by simp
qed

lemma ParseDSN_noslash_loop_result:
  "CHR ''?'' \<notin> set (take n s) \<Longrightarrow> n \<le> length s \<Longrightarrow>
   ParseDSN_noslash_loop s n cfg pq = (j, c, pq') \<Longrightarrow> pq' = pq \<and> -1 \<le> j \<and> j < int n"
proof (induction n arbitrary: j c pq')
  case 0
  then show ?case by simp
next
  case (Suc n)
  have t: "take (Suc n) s = take n s @ [s ! n]"
    using Suc.prems(2) by (simp add: take_Suc_conv_app_nth)
  then have nq: "s ! n \<noteq> CHR ''?''" and nq': "CHR ''?'' \<notin> set (take n s)"
    using Suc.prems(1) by auto
  show ?case
  proof (cases "s ! n = CHR ''@''")
    case True
    then show ?thesis
      using Suc.prems(3) by (auto split: prod.splits)
  next
    case False
    then have "ParseDSN_noslash_loop s n cfg pq = (j, c, pq')"
      using Suc.prems(3) nq by simp
    then have "pq' = pq \<and> -1 \<le> j \<and> j < int n"
      using Suc.IH nq' Suc.prems(2) by simp
    then show ?thesis by simp
  qed
qed

lemma ParseDSN_slash_loop_bounds:
  "ParseDSN_slash_loop s n cfg ss pss = (j, c, ss', pss') \<Longrightarrow> int n \<le> pss \<Longrightarrow>
   -1 \<le> j \<and> j < int n \<and> j < pss' \<and> pss' \<le> pss"
proof (induction n arbitrary: ss pss)
  case 0
  then show ?case by auto
next
  case (Suc n)
  show ?case
  proof (cases "s ! n = CHR ''/''")
    case True
    then have "ParseDSN_slash_loop s n cfg True (int n) = (j, c, ss', pss')"
      using Suc.prems(1) by simp
    then have "-1 \<le> j \<and> j < int n \<and> j < pss' \<and> pss' \<le> int n"
      using Suc.IH by simp
    then show ?thesis using Suc.prems(2) by simp
  next
    case False
    show ?thesis
    proof (cases "s ! n = CHR ''@''")
      case True
      then show ?thesis
        using Suc.prems False by (auto split: prod.splits)
    next
      case nat: False
      then have "ParseDSN_slash_loop s n cfg ss pss = (j, c, ss', pss')"
        using Suc.prems(1) False by simp
      then have "-1 \<le> j \<and> j < int n \<and> j < pss' \<and> pss' \<le> pss"
        using Suc.IH Suc.prems(2) by simp
      then show ?thesis by simp
    qed
  qed
qed

lemma scanFor_none:
  assumes "c \<notin> set (drop k s)"
  shows "\<not> scanFor c s k (length s) < length s"
proof (cases "k \<le> length s")
  case True
  then have "scanFor c s k (length s) = k + length (takeWhile (\<lambda>x. x \<noteq> c) (drop k s))"
    by (simp add: scanFor_takeWhile_aux)
  then show ?thesis
    using assms True by (simp add: takeWhile_absent)
next
  case False
  then show ?thesis by (simp add: scanFor_stop)
qed

lemma parseParams_none:
  "CHR ''?'' \<notin> set (drop (nat (p + 1)) s) \<Longrightarrow> parseParams cfg px p s = (Inr cfg, px)"
  unfolding parseParams_def Let_def using scanFor_none by simp

lemma scanFor_first:
  assumes "c \<notin> set (drop k body)" "k \<le> length body"
  shows "scanFor c (body @ c # q) k (length (body @ c # q)) = length body"
proof -
  have "scanFor c (body @ c # q) k (length (body @ c # q)) =
      k + length (takeWhile (\<lambda>x. x \<noteq> c) (drop k (body @ c # q)))"
    using assms(2) by (simp add: scanFor_takeWhile_aux)
  also have "takeWhile (\<lambda>x. x \<noteq> c) (drop k (body @ c # q)) = drop k body"
    using assms by (auto simp: takeWhile_tail)
  finally show ?thesis using assms(2) by simp
qed

lemma parseParams_query:
  assumes "CHR ''?'' \<notin> set (drop k body)" "k \<le> length body"
  shows "parseParams cfg px (int k - 1) (body @ CHR ''?'' # q) = parseDSNParams cfg px q"
proof -
  have "scanFor CHR ''?'' (body @ CHR ''?'' # q) (nat (int k - 1 + 1)) (length (body @ CHR ''?'' # q))
      = length body"
    using scanFor_first [OF assms] by simp
  moreover have "nat (int (length body) + 1) = Suc (length body)"
    by simp
  ultimately show ?thesis
    unfolding parseParams_def Let_def by (simp add: slice_from_def)
qed


lemma ParseDSN_slash_target_local:
  assumes "i \<le> length body"
  shows "ParseDSN_slash_target (body @ rest) i cfg = ParseDSN_slash_target body i cfg"
proof (cases "i > 0")
  case False
  then show ?thesis by (simp add: ParseDSN_slash_target_def)
next
  case True
  obtain j c ss pss where l: "ParseDSN_slash_loop body i cfg False (int i) = (j, c, ss, pss)"
    by (cases "ParseDSN_slash_loop body i cfg False (int i)") auto
  have b: "-1 \<le> j \<and> j < int i \<and> j < pss \<and> pss \<le> int i"
    using ParseDSN_slash_loop_bounds [OF l] by simp
  then have "parseAccountHostPort j (int (nat pss)) (body @ rest) =
      parseAccountHostPort j (int (nat pss)) body"
    using assms by (intro parseAccountHostPort_local) auto
  then have "parseAccountHostPort j pss (body @ rest) = parseAccountHostPort j pss body"
    using b by simp
  then show ?thesis
    using True l assms by (simp add: ParseDSN_slash_target_def ParseDSN_slash_loop_local)
qed

lemma ParseDSN_slash_target_bounds:
  "ParseDSN_slash_target s i cfg = Inr (c, ss, pss) \<Longrightarrow> 0 \<le> pss \<and> pss \<le> int i"
proof (cases "i > 0")
  case False
  assume "ParseDSN_slash_target s i cfg = Inr (c, ss, pss)"
  then show ?thesis using False by (simp add: ParseDSN_slash_target_def)
next
  case True
  assume a: "ParseDSN_slash_target s i cfg = Inr (c, ss, pss)"
  obtain j c' ss' pss' where l: "ParseDSN_slash_loop s i cfg False (int i) = (j, c', ss', pss')"
    by (cases "ParseDSN_slash_loop s i cfg False (int i)") auto
  have b: "-1 \<le> j \<and> j < int i \<and> j < pss' \<and> pss' \<le> int i"
    using ParseDSN_slash_loop_bounds [OF l] by simp
  have "pss = pss'"
    using a True l by (auto simp: ParseDSN_slash_target_def split: sum.splits)
  then show ?thesis using b by simp
qed

text \<open>The slash case on a DSN with a query and on the same DSN without it.\<close>

lemma ParseDSN_slash_query:
  assumes "CHR ''?'' \<notin> set body" "i < length body"
  shows "\<exists>t. ParseDSN_slash body i (int (length body)) cfg px =
            (case t of Inl e \<Rightarrow> (Inl e, px) | Inr (c1, f) \<Rightarrow> (Inr (f c1), px))
        \<and> ParseDSN_slash (body @ CHR ''?'' # q) i (int (length body)) cfg px =
            (case t of Inl e \<Rightarrow> (Inl e, px)
             | Inr (c1, f) \<Rightarrow>
                 (case parseDSNParams c1 px q of
                    (Inl e, px') \<Rightarrow> (Inl e, px')
                  | (Inr c, px') \<Rightarrow> (Inr (f c), px')))"
proof (cases "ParseDSN_slash_target body i cfg")
  case (Inl e)
  then have "ParseDSN_slash_target (body @ CHR ''?'' # q) i cfg = Inl e"
    using assms(2) by (simp add: ParseDSN_slash_target_local)
  then show ?thesis
    using Inl by (intro exI [of _ "Inl e"]) (simp add: ParseDSN_slash_def)
next
  case (Inr r)
  obtain c1 ss pss where r: "r = (c1, ss, pss)"
    by (cases r) auto
  have tb: "ParseDSN_slash_target body i cfg = Inr (c1, ss, pss)"
    using Inr r by simp
  have tq: "ParseDSN_slash_target (body @ CHR ''?'' # q) i cfg = Inr (c1, ss, pss)"
    using tb assms(2) by (simp add: ParseDSN_slash_target_local)
  have b: "0 \<le> pss \<and> pss \<le> int i"
    using ParseDSN_slash_target_bounds [OF tb] .
  let ?L = "int (length body)"
  let ?f = "\<lambda>c. if ss then c\<lparr>Database := slice body (pss + 1) (int i),
                                Schema := slice body (int i + 1) ?L\<rparr>
                 else c\<lparr>Database := slice body (pss + 1) ?L, Schema := ''public''\<rparr>"
  have pb: "parseParams c1 px (int i) body = (Inr c1, px)"
    using assms(1) by (intro parseParams_none) (auto dest: in_set_dropD)
  have "CHR ''?'' \<notin> set (drop (Suc i) body)"
    using assms(1) by (auto dest: in_set_dropD)
  then have "parseParams c1 px (int (Suc i) - 1) (body @ CHR ''?'' # q) = parseDSNParams c1 px q"
    using assms(2) by (intro parseParams_query) auto
  then have pq: "parseParams c1 px (int i) (body @ CHR ''?'' # q) = parseDSNParams c1 px q"
    by simp
  have s1: "slice (body @ CHR ''?'' # q) (pss + 1) (int i) = slice body (pss + 1) (int i)"
    using b assms(2) by (intro slice_local) auto
  have s2: "slice (body @ CHR ''?'' # q) (int i + 1) ?L = slice body (int i + 1) ?L"
    by (intro slice_local) auto
  have s3: "slice (body @ CHR ''?'' # q) (pss + 1) ?L = slice body (pss + 1) ?L"
    using b by (intro slice_local) auto
  have 1: "ParseDSN_slash body i ?L cfg px = (Inr (?f c1), px)"
    unfolding ParseDSN_slash_def tb by (simp add: pb)
  have 2: "ParseDSN_slash (body @ CHR ''?'' # q) i ?L cfg px =
      (case parseDSNParams c1 px q of
         (Inl e, px') \<Rightarrow> (Inl e, px')
       | (Inr c, px') \<Rightarrow> (Inr (?f c), px'))"
    unfolding ParseDSN_slash_def tq by (simp add: pq s1 s2 s3 split: prod.splits sum.splits)
  show ?thesis
    using 1 2 by (intro exI [of _ "Inr (c1, ?f)"]) simp
qed

text \<open>The outer loop below the query: it ends without a slash, or at the same slash with and
  without the query.\<close>

lemma ParseDSN_loop_body:
  assumes "n \<le> length body" and noq: "CHR ''?'' \<notin> set body"
  shows "(ParseDSN_loop (body @ rest) n L cfg px = (False, L, Inr cfg, px)
          \<and> ParseDSN_loop body n L cfg px = (False, L, Inr cfg, px)
          \<and> CHR ''/'' \<notin> set (take n body))
       \<or> (\<exists>i<n. body ! i = CHR ''/'' \<and> ParseDSN_loop (body @ rest) n L cfg px =
                   (case ParseDSN_slash (body @ rest) i L cfg px of (r, px') \<Rightarrow> (True, L, r, px'))
               \<and> ParseDSN_loop body n L cfg px =
                   (case ParseDSN_slash body i L cfg px of (r, px') \<Rightarrow> (True, L, r, px')))"
proof -
  define none where "none m \<longleftrightarrow>
      ParseDSN_loop (body @ rest) m L cfg px = (False, L, Inr cfg, px)
      \<and> ParseDSN_loop body m L cfg px = (False, L, Inr cfg, px)
      \<and> CHR ''/'' \<notin> set (take m body)" for m
  define slashAt where "slashAt m i \<longleftrightarrow>
      i < m \<and> body ! i = CHR ''/''
      \<and> ParseDSN_loop (body @ rest) m L cfg px =
          (case ParseDSN_slash (body @ rest) i L cfg px of (r, px') \<Rightarrow> (True, L, r, px'))
      \<and> ParseDSN_loop body m L cfg px =
          (case ParseDSN_slash body i L cfg px of (r, px') \<Rightarrow> (True, L, r, px'))" for m i
  have "none n \<or> (\<exists>i. slashAt n i)"
    using assms(1)
  proof (induction n)
    case 0
    show ?case by (simp add: none_def)
  next
    case (Suc n)
    have nth: "(body @ rest) ! n = body ! n"
      using Suc.prems by (simp add: nth_append)
    have "body ! n \<in> set body"
      using Suc.prems by simp
    then have nq: "body ! n \<noteq> CHR ''?''"
      using noq by metis
    have t: "take (Suc n) body = take n body @ [body ! n]"
      using Suc.prems by (simp add: take_Suc_conv_app_nth)
    show ?case
    proof (cases "body ! n = CHR ''/''")
      case True
      then have "slashAt (Suc n) n"
        using nth by (simp add: slashAt_def)
      then show ?thesis by blast
    next
      case False
      have step: "ParseDSN_loop (body @ rest) (Suc n) L cfg px = ParseDSN_loop (body @ rest) n L cfg px"
        "ParseDSN_loop body (Suc n) L cfg px = ParseDSN_loop body n L cfg px"
        using False nq nth by simp_all
      have "none n \<or> (\<exists>i. slashAt n i)"
        using Suc.IH Suc.prems by simp
      then show ?thesis
      proof
        assume "none n"
        then have "none (Suc n)"
          unfolding none_def step t using False by simp
        then show ?thesis by blast
      next
        assume "\<exists>i. slashAt n i"
        then obtain i where "slashAt n i" by blast
        then have "slashAt (Suc n) i"
          unfolding slashAt_def step by simp
        then show ?thesis by blast
      qed
    qed
  qed
  then show ?thesis
    unfolding none_def slashAt_def by blast
qed

lemma ParseDSN_noslash_query:
  assumes "CHR ''?'' \<notin> set body" "CHR ''@'' \<notin> set q"
  shows "\<exists>t. ParseDSN_noslash body (int (length body)) cfg px =
            (case t of Inl e \<Rightarrow> (Inl e, px) | Inr c1 \<Rightarrow> (Inr c1, px))
        \<and> ParseDSN_noslash (body @ CHR ''?'' # q) (int (length body)) cfg px =
            (case t of Inl e \<Rightarrow> (Inl e, px) | Inr c1 \<Rightarrow> parseDSNParams c1 px q)"
proof -
  let ?dsn = "body @ CHR ''?'' # q"
  let ?L = "int (length body)"
  obtain j c pq where l: "ParseDSN_noslash_loop body (length body) cfg ?L = (j, c, pq)"
    by (cases "ParseDSN_noslash_loop body (length body) cfg ?L") auto
  have b: "pq = ?L \<and> -1 \<le> j \<and> j < ?L"
    using ParseDSN_noslash_loop_result [OF _ _ l] assms(1) by simp
  have "ParseDSN_noslash_loop ?dsn (Suc (length body + length q)) cfg ?L =
      ParseDSN_noslash_loop ?dsn (length body) cfg ?L"
    using assms(2) by (intro ParseDSN_noslash_loop_skip_query) auto
  then have lq: "ParseDSN_noslash_loop ?dsn (length ?dsn) cfg ?L = (j, c, ?L)"
    using l b by (simp add: ParseDSN_noslash_loop_local)
  have lb: "ParseDSN_noslash_loop body (length body) cfg ?L = (j, c, ?L)"
    using l b by simp
  have a: "parseAccountHostPort j ?L ?dsn = parseAccountHostPort j ?L body"
    using b by (intro parseAccountHostPort_local) auto
  have pb: "parseParams c' px (?L - 1) body = (Inr c', px)" for c'
    by (intro parseParams_none) simp
  have pq: "parseParams c' px (?L - 1) ?dsn = parseDSNParams c' px q" for c'
    using assms(1) by (intro parseParams_query) auto
  show ?thesis
  proof (cases "parseAccountHostPort j ?L body")
    case (Inl e)
    then show ?thesis
      unfolding ParseDSN_noslash_def lq lb
      by (intro exI [of _ "Inl e"]) (simp add: a)
  next
    case (Inr r)
    obtain region account host port where r: "r = (region, account, host, port)"
      by (cases r) auto
    show ?thesis
      unfolding ParseDSN_noslash_def lq lb
      using Inr r
      by (intro exI [of _ "Inr (c\<lparr>Region := region, Account := account, Host := host, Port := port\<rparr>)"])
         (simp add: a pb pq)
  qed
qed

text \<open>Segment parsing of a DSN with a query, against segment parsing of the DSN without
  it: the same target, then the query is parsed, then (in the slash case) database and
  schema are assigned.\<close>

lemma ParseDSN_segments_query:
  assumes "CHR ''?'' \<notin> set body" "CHR ''/'' \<notin> set q" "CHR ''@'' \<notin> set q"
  shows "\<exists>t. ParseDSN_segments px body =
            (case t of Inl e \<Rightarrow> (Inl e, px) | Inr (c1, f) \<Rightarrow> (Inr (f c1), px))
        \<and> ParseDSN_segments px (body @ CHR ''?'' # q) =
            (case t of Inl e \<Rightarrow> (Inl e, px)
             | Inr (c1, f) \<Rightarrow>
                 (case parseDSNParams c1 px q of
                    (Inl e, px') \<Rightarrow> (Inl e, px')
                  | (Inr c, px') \<Rightarrow> (Inr (f c), px')))
        \<and> (CHR ''/'' \<notin> set body \<longrightarrow> (\<forall>c1 f. t = Inr (c1, f) \<longrightarrow> f = (\<lambda>c. c)))"
proof -
  let ?dsn = "body @ CHR ''?'' # q"
  let ?L = "int (length body)"
  have "ParseDSN_loop ?dsn (Suc (length body + length q)) (int (length ?dsn)) newConfig px =
      ParseDSN_loop ?dsn (length body) ?L newConfig px"
    using assms(2) by (intro ParseDSN_loop_skip_query) auto
  then have sk: "ParseDSN_loop ?dsn (length ?dsn) (int (length ?dsn)) newConfig px =
      ParseDSN_loop ?dsn (length body) ?L newConfig px"
    by simp
  from ParseDSN_loop_body [of "length body" body "CHR ''?'' # q" ?L newConfig px] assms(1)
  consider
    (noslash) "ParseDSN_loop ?dsn (length body) ?L newConfig px = (False, ?L, Inr newConfig, px)"
      "ParseDSN_loop body (length body) ?L newConfig px = (False, ?L, Inr newConfig, px)"
      "CHR ''/'' \<notin> set body"
  | (slash) i where "i < length body" "body ! i = CHR ''/''"
      "ParseDSN_loop ?dsn (length body) ?L newConfig px =
         (case ParseDSN_slash ?dsn i ?L newConfig px of (r, px') \<Rightarrow> (True, ?L, r, px'))"
      "ParseDSN_loop body (length body) ?L newConfig px =
         (case ParseDSN_slash body i ?L newConfig px of (r, px') \<Rightarrow> (True, ?L, r, px'))"
    by auto
  then show ?thesis
  proof cases
    case noslash
    obtain t where t: "ParseDSN_noslash body ?L newConfig px =
            (case t of Inl e \<Rightarrow> (Inl e, px) | Inr c1 \<Rightarrow> (Inr c1, px))"
        "ParseDSN_noslash ?dsn ?L newConfig px =
            (case t of Inl e \<Rightarrow> (Inl e, px) | Inr c1 \<Rightarrow> parseDSNParams c1 px q)"
      using ParseDSN_noslash_query [OF assms(1,3)] by blast
    show ?thesis
      unfolding ParseDSN_segments_def sk noslash(1,2)
      using t
      by (intro exI [of _ "map_sum (\<lambda>e. e) (\<lambda>c1. (c1, \<lambda>c. c)) t"])
         (cases t; simp split: prod.splits sum.splits)
  next
    case (slash i)
    obtain t where t: "ParseDSN_slash body i ?L newConfig px =
            (case t of Inl e \<Rightarrow> (Inl e, px) | Inr (c1, f) \<Rightarrow> (Inr (f c1), px))"
        "ParseDSN_slash ?dsn i ?L newConfig px =
            (case t of Inl e \<Rightarrow> (Inl e, px)
             | Inr (c1, f) \<Rightarrow>
                 (case parseDSNParams c1 px q of
                    (Inl e, px') \<Rightarrow> (Inl e, px')
                  | (Inr c, px') \<Rightarrow> (Inr (f c), px')))"
      using ParseDSN_slash_query [OF assms(1) slash(1)] by blast
    have sl: "CHR ''/'' \<in> set body"
      using slash(1,2) nth_mem by metis
    show ?thesis
      unfolding ParseDSN_segments_def sk slash(3,4)
      using t sl
      by (intro exI [of _ t]) (cases t; auto split: prod.splits sum.splits)
  qed
qed


lemma SplitN_pair:
  assumes "CHR ''='' \<notin> set k"
  shows "SplitN (k @ CHR ''='' # raw) ''='' 2 = [k, raw]"
proof -
  have "Index (k @ CHR ''='' # raw) ''='' = int (length k)"
    using assms by (simp add: Index_single takeWhile_tail takeWhile_absent)
  moreover have "nat (int (length k) + 1) - length k = Suc 0"
    by simp
  ultimately show ?thesis
    by (simp add: eval_nat_numeral slice_def slice_from_def del: Index.simps)
qed

lemma parseDSNParams_pair_eq:
  assumes "CHR ''='' \<notin> set k"
  shows "parseDSNParams_pair cfg px (k @ CHR ''='' # raw) =
     (case QueryUnescape raw of
        Inl err \<Rightarrow> (Inl err, px)
      | Inr val \<Rightarrow> parseDSNParams_switch cfg px k val)"
  unfolding parseDSNParams_pair_def SplitN_pair [OF assms] by (simp split: sum.splits)

lemma parseDSNParams_loop_append:
  "parseDSNParams_loop cfg px (xs @ ys) =
     (case parseDSNParams_loop cfg px xs of
        (Inl err, px') \<Rightarrow> (Inl err, px')
      | (Inr cfg', px') \<Rightarrow> parseDSNParams_loop cfg' px' ys)"
  by (induction xs arbitrary: cfg px) (simp_all split: prod.splits sum.splits)

lemma parseDSNParams_switch_bool_error:
  assumes "ParseBool val = Inl e"
  shows "parseDSNParams_switch cfg px ''passcodeInPassword'' val = (Inl e, px)"
    and "parseDSNParams_switch cfg px ''insecureMode'' val = (Inl e, px)"
  using assms by (simp_all add: parseDSNParams_switch_def)

lemma parseDSNParams_switch_int_error:
  assumes "ParseInt val = Inl e"
  shows "parseDSNParams_switch cfg px ''loginTimeout'' val = (Inl e, px)"
    and "parseDSNParams_switch cfg px ''proxyPort'' val = (Inl e, px)"
  using assms by (simp_all add: parseDSNParams_switch_def)

lemma ParseDSN_query_error:
  assumes "CHR ''?'' \<notin> set body" "CHR ''/'' \<notin> set q" "CHR ''@'' \<notin> set q"
    and "ParseDSN_segments px body = (Inr cfgb, pxb)"
    and "fst (parseDSNParams cfg0 px0 q) = Inl e"
  shows "fst (ParseDSN clientType px (body @ ''?'' @ q)) = Inl e"
proof -
  obtain t where t: "ParseDSN_segments px body =
            (case t of Inl e \<Rightarrow> (Inl e, px) | Inr (c1, f) \<Rightarrow> (Inr (f c1), px))"
     "ParseDSN_segments px (body @ CHR ''?'' # q) =
            (case t of Inl e \<Rightarrow> (Inl e, px)
             | Inr (c1, f) \<Rightarrow>
                 (case parseDSNParams c1 px q of
                    (Inl e, px') \<Rightarrow> (Inl e, px')
                  | (Inr c, px') \<Rightarrow> (Inr (f c), px')))"
    using ParseDSN_segments_query [OF assms(1-3)] by blast
  obtain c1 f where cf: "t = Inr (c1, f)"
    using t(1) assms(4) by (cases t) auto
  have "fst (parseDSNParams c1 px q) = Inl e"
    using assms(5) by (rule parseDSNParams_error_indep)
  then obtain px' where "parseDSNParams c1 px q = (Inl e, px')"
    by (cases "parseDSNParams c1 px q") auto
  then have "ParseDSN_segments px (body @ CHR ''?'' # q) = (Inl e, px')"
    using t(2) cf by simp
  then show ?thesis
    by (simp add: ParseDSN_def)
qed

text \<open>
  Claim C10. A recognized typed key with a value that does not convert ends the parse
  with the conversion error: \<open>passcodeInPassword\<close> and \<open>insecureMode\<close> with a value that
  ParseBool rejects, \<open>loginTimeout\<close> and \<open>proxyPort\<close> with a value that ParseInt rejects (the
  value is the unescaped text after \<open>=\<close>). Such a pair is not skipped: the loop over the
  pairs stops there with that error, and ParseDSN returns the error of the query string
  for every DSN \<open>body?query\<close> whose body parses (and whose query holds no \<open>/\<close> or \<open>@\<close>, so
  that it is the query that the scan finds).
\<close>

theorem ParseDSN_conversion_errors:
  "(key \<in> {''passcodeInPassword'', ''insecureMode''} \<and> QueryUnescape raw = Inr val
      \<and> ParseBool val = Inl e \<longrightarrow>
      parseDSNParams_pair cfg px (key @ ''='' @ raw) = (Inl e, px))
   \<and> (key \<in> {''loginTimeout'', ''proxyPort''} \<and> QueryUnescape raw = Inr val
      \<and> ParseInt val = Inl e \<longrightarrow>
      parseDSNParams_pair cfg px (key @ ''='' @ raw) = (Inl e, px))
   \<and> (parseDSNParams_loop cfg px good = (Inr cfg1, px1)
      \<and> parseDSNParams_pair cfg1 px1 v = (Inl e, px1) \<longrightarrow>
      parseDSNParams_loop cfg px (good @ v # rest) = (Inl e, px1))
   \<and> (CHR ''?'' \<notin> set body \<and> CHR ''/'' \<notin> set q \<and> CHR ''@'' \<notin> set q
      \<and> ParseDSN_segments px body = (Inr cfgb, pxb)
      \<and> fst (parseDSNParams cfg0 px0 q) = Inl e \<longrightarrow>
      fst (ParseDSN clientType px (body @ ''?'' @ q)) = Inl e)
   \<and> ParseDSN clientType px ''user:pass@acc?loginTimeout=abc'' =
       (Inl (NumError ''ParseInt'' ''abc'' ErrSyntax), px)
   \<and> ParseDSN clientType px ''user:pass@acc/db?warehouse=wh&insecureMode=maybe'' =
       (Inl (NumError ''ParseBool'' ''maybe'' ErrSyntax), px)"
proof (intro conjI impI)
  assume a: "key \<in> {''passcodeInPassword'', ''insecureMode''} \<and> QueryUnescape raw = Inr val
      \<and> ParseBool val = Inl e"
  then have k: "key = ''passcodeInPassword'' \<or> key = ''insecureMode''"
    by simp
  then have "CHR ''='' \<notin> set key" by auto
  then have "parseDSNParams_pair cfg px (key @ ''='' @ raw) = parseDSNParams_switch cfg px key val"
    using a by (simp add: parseDSNParams_pair_eq)
  moreover have "parseDSNParams_switch cfg px key val = (Inl e, px)"
    using k a parseDSNParams_switch_bool_error [of val e cfg px] by blast
  ultimately show "parseDSNParams_pair cfg px (key @ ''='' @ raw) = (Inl e, px)"
    by simp
next
  assume a: "key \<in> {''loginTimeout'', ''proxyPort''} \<and> QueryUnescape raw = Inr val
      \<and> ParseInt val = Inl e"
  then have k: "key = ''loginTimeout'' \<or> key = ''proxyPort''"
    by simp
  then have "CHR ''='' \<notin> set key" by auto
  then have "parseDSNParams_pair cfg px (key @ ''='' @ raw) = parseDSNParams_switch cfg px key val"
    using a by (simp add: parseDSNParams_pair_eq)
  moreover have "parseDSNParams_switch cfg px key val = (Inl e, px)"
    using k a parseDSNParams_switch_int_error [of val e cfg px] by blast
  ultimately show "parseDSNParams_pair cfg px (key @ ''='' @ raw) = (Inl e, px)"
    by simp
next
  assume "parseDSNParams_loop cfg px good = (Inr cfg1, px1)
      \<and> parseDSNParams_pair cfg1 px1 v = (Inl e, px1)"
  then show "parseDSNParams_loop cfg px (good @ v # rest) = (Inl e, px1)"
    by (simp add: parseDSNParams_loop_append)
next
  assume "CHR ''?'' \<notin> set body \<and> CHR ''/'' \<notin> set q \<and> CHR ''@'' \<notin> set q
      \<and> ParseDSN_segments px body = (Inr cfgb, pxb)
      \<and> fst (parseDSNParams cfg0 px0 q) = Inl e"
  then show "fst (ParseDSN clientType px (body @ ''?'' @ q)) = Inl e"
    using ParseDSN_query_error by blast
next
  show "ParseDSN clientType px ''user:pass@acc?loginTimeout=abc'' =
       (Inl (NumError ''ParseInt'' ''abc'' ErrSyntax), px)"
    by (simp add: parse_eval)
next
  show "ParseDSN clientType px ''user:pass@acc/db?warehouse=wh&insecureMode=maybe'' =
       (Inl (NumError ''ParseBool'' ''maybe'' ErrSyntax), px)"
    by (simp add: parse_eval)
qed

theorem ParseDSN_conversion_errors_witness:
  "parseDSNParams_pair newConfig noProxy ''insecureMode=maybe'' =
     (Inl (NumError ''ParseBool'' ''maybe'' ErrSyntax), noProxy)
   \<and> parseDSNParams_pair newConfig noProxy ''proxyPort=8o'' =
     (Inl (NumError ''ParseInt'' ''8o'' ErrSyntax), noProxy)
   \<and> parseDSNParams_loop newConfig noProxy [''role=r'', ''proxyPort=8o'', ''x=y''] =
     (Inl (NumError ''ParseInt'' ''8o'' ErrSyntax), noProxy)
   \<and> fst (ParseDSN ''Go'' noProxy ''u:p@a?proxyPort=8o'') = Inl (NumError ''ParseInt'' ''8o'' ErrSyntax)"
proof -
  let ?eb = "NumError ''ParseBool'' ''maybe'' ErrSyntax"
  let ?ei = "NumError ''ParseInt'' ''8o'' ErrSyntax"
  have u1: "QueryUnescape ''maybe'' = Inr ''maybe''" and u2: "QueryUnescape ''8o'' = Inr ''8o''"
    by (simp_all add: QueryUnescape_def)
  have b: "ParseBool ''maybe'' = Inl ?eb"
    by (simp add: ParseBool_def)
  have i: "ParseInt ''8o'' = Inl ?ei"
    by (simp add: ParseInt_def parseInt64_def ParseUint_def isdigit_def digitval_def
        less_eq_char_def Let_def)
  have g: "parseDSNParams_loop newConfig noProxy [''role=r''] = (Inr (newConfig\<lparr>Role := ''r''\<rparr>), noProxy)"
    by (simp add: parse_eval)
  have p: "parseDSNParams_pair (newConfig\<lparr>Role := ''r''\<rparr>) noProxy ''proxyPort=8o'' = (Inl ?ei, noProxy)"
    by (simp add: parse_eval)
  have s: "ParseDSN_segments noProxy ''u:p@a'' =
      (Inr (newConfig\<lparr>User := ''u'', Password := ''p'', Account := ''a'',
         Host := ''a.snowflakecomputing.com'', Port := 443\<rparr>), noProxy)"
    by (simp add: parse_eval)
  have q: "fst (parseDSNParams newConfig noProxy ''proxyPort=8o'') = Inl ?ei"
    by (simp add: parse_eval)
  have 1: "parseDSNParams_pair newConfig noProxy ''insecureMode=maybe'' = (Inl ?eb, noProxy)"
    using ParseDSN_conversion_errors [of "''insecureMode''" "''maybe''" "''maybe''" ?eb newConfig noProxy]
      u1 b by simp
  have 2: "parseDSNParams_pair newConfig noProxy ''proxyPort=8o'' = (Inl ?ei, noProxy)"
    using ParseDSN_conversion_errors [of "''proxyPort''" "''8o''" "''8o''" ?ei newConfig noProxy]
      u2 i by simp
  have 3: "parseDSNParams_loop newConfig noProxy ([''role=r''] @ ''proxyPort=8o'' # [''x=y'']) =
      (Inl ?ei, noProxy)"
    using ParseDSN_conversion_errors [of _ _ _ ?ei newConfig noProxy "[''role=r'']"
        "newConfig\<lparr>Role := ''r''\<rparr>" noProxy "''proxyPort=8o''" "[''x=y'']"] g p
    by blast
  have 4: "fst (ParseDSN ''Go'' noProxy (''u:p@a'' @ ''?'' @ ''proxyPort=8o'')) = Inl ?ei"
    using ParseDSN_conversion_errors [of _ _ _ ?ei _ noProxy _ _ _ _ _ "''u:p@a''" "''proxyPort=8o''"
        _ noProxy newConfig noProxy "''Go''"] s q
    by simp
  show ?thesis
    using 1 2 3 4 by simp
qed

section \<open>Unrecognized keys\<close>

text \<open>The equations that evaluate a parse whose values hold percent escapes.\<close>

lemmas parse_eval_hex = ParseDSN_def ParseDSN_segments_def ParseDSN_slash_def
  ParseDSN_slash_target_def ParseDSN_noslash_def
  parseUserPassword_def parseAccountHostPort_def parseParams_def parseDSNParams_def
  parseDSNParams_pair_def parseDSNParams_switch_def Split_def scanFor.simps slice_def
  slice_from_def HasSuffix_def HasPrefix_def ParseDSN_account_def fill_cases fill_host_def
  ParseDSN_unescape_def QueryUnescape_def Atoi_def ParseInt_def parseInt64_def ParseUint_def
  ParseBool_def isdigit_def digitval_def ishex_def unhex_def less_eq_char_def
  defaultLoginTimeout_def defaultAuthenticator_def Second_def newConfig_def numeral_2_eq_2
  char_of_eq_iff Let_def

lemma char_of_32: "char_of (32::nat) = CHR '' ''"
  by (simp add: char_of_eq_iff)

lemma parseDSNParams_switch_default:
  "key \<notin> set recognizedKeys \<Longrightarrow>
   parseDSNParams_switch cfg px key val = (Inr (cfg\<lparr>Params := (Params cfg)(key \<mapsto> val)\<rparr>), px)"
  by (simp add: parseDSNParams_switch_def recognizedKeys_def)

lemma parseDSNParams_switch_Params:
  "parseDSNParams_switch cfg px k val = (Inr cfg', px') \<Longrightarrow> k \<noteq> key \<Longrightarrow>
   Params cfg' key = Params cfg key"
  unfolding parseDSNParams_switch_def
  by (simp split: if_splits sum.splits; fastforce)

lemma unescape_plain:
  "CHR ''%'' \<notin> set s \<Longrightarrow> CHR ''+'' \<notin> set s \<Longrightarrow> QueryUnescape s = Inr s"
proof -
  assume a: "CHR ''%'' \<notin> set s" "CHR ''+'' \<notin> set s"
  have "unescape_check s = None" using a(1) by (induction s) auto
  moreover have "unescape_build s = s" using a by (induction s) auto
  ultimately show ?thesis by (simp add: QueryUnescape_def)
qed

lemma Index_found:
  assumes "Index s [c] = m" "0 \<le> m"
  shows "s = take (nat m) s @ c # drop (Suc (nat m)) s \<and> c \<notin> set (take (nat m) s)"
proof -
  have mem: "c \<in> set s"
    using assms by (auto simp: Index_single split: if_splits)
  then have m: "nat m = length (takeWhile (\<lambda>x. x \<noteq> c) s)"
    using assms by (simp add: Index_single)
  have t: "take (nat m) s = takeWhile (\<lambda>x. x \<noteq> c) s"
    unfolding m by (simp add: takeWhile_eq_take [symmetric])
  have d: "drop (nat m) s = dropWhile (\<lambda>x. x \<noteq> c) s"
    unfolding m by (simp add: dropWhile_eq_drop [symmetric])
  have "dropWhile (\<lambda>x. x \<noteq> c) s \<noteq> []"
    using mem by simp
  moreover have "hd (dropWhile (\<lambda>x. x \<noteq> c) s) = c"
    using mem hd_dropWhile [of "\<lambda>x. x \<noteq> c" s] by auto
  ultimately have "drop (nat m) s = c # drop (Suc (nat m)) s"
    using d by (metis drop_Suc hd_Cons_tl tl_drop)
  then have "s = take (nat m) s @ c # drop (Suc (nat m)) s"
    by (metis append_take_drop_id)
  moreover have "c \<notin> set (take (nat m) s)"
    unfolding t by (auto dest: set_takeWhileD)
  ultimately show ?thesis by blast
qed

lemma SplitN_2_decomp:
  assumes "length (SplitN v ''='' 2) = 2"
  shows "v = (SplitN v ''='' 2 ! 0) @ CHR ''='' # (SplitN v ''='' 2 ! 1)
         \<and> CHR ''='' \<notin> set (SplitN v ''='' 2 ! 0)"
proof -
  let ?m = "Index v ''=''"
  have m: "0 \<le> ?m"
    using assms by (auto simp: eval_nat_numeral Let_def split: if_splits simp del: Index.simps)
  then have s: "SplitN v ''='' 2 = [take (nat ?m) v, drop (Suc (nat ?m)) v]"
    by (simp add: eval_nat_numeral Let_def slice_def slice_from_def nat_add_distrib
        del: Index.simps)
  show ?thesis
    unfolding s using Index_found [OF refl m] by simp
qed

lemma parseDSNParams_pair_Params:
  assumes "parseDSNParams_pair cfg px v = (Inr cfg', px')" "\<not> HasPrefix v (key @ ''='')"
  shows "Params cfg' key = Params cfg key"
proof (cases "length (SplitN v ''='' 2) = 2")
  case False
  then show ?thesis
    using assms(1) by (simp add: parseDSNParams_pair_def)
next
  case True
  let ?k = "SplitN v ''='' 2 ! 0" and ?r = "SplitN v ''='' 2 ! 1"
  have v: "v = ?k @ CHR ''='' # ?r"
    using SplitN_2_decomp [OF True] by simp
  have "?k \<noteq> key"
  proof
    assume "?k = key"
    then have "v = (key @ ''='') @ ?r"
      using v by simp
    then have "HasPrefix v (key @ ''='')"
      unfolding HasPrefix_def by (metis append_eq_conv_conj le_add1 length_append)
    then show False using assms(2) by simp
  qed
  moreover obtain val where "QueryUnescape ?r = Inr val"
    "parseDSNParams_switch cfg px ?k val = (Inr cfg', px')"
    using assms(1) True by (auto simp: parseDSNParams_pair_def Let_def split: sum.splits)
  ultimately show ?thesis
    using parseDSNParams_switch_Params by blast
qed

lemma parseDSNParams_loop_Params:
  assumes "parseDSNParams_loop cfg px vs = (Inr cfg', px')"
    "\<forall>v\<in>set vs. \<not> HasPrefix v (key @ ''='')"
  shows "Params cfg' key = Params cfg key"
  using assms
proof (induction vs arbitrary: cfg px)
  case Nil
  then show ?case by simp
next
  case (Cons v vs)
  obtain c p where cp: "parseDSNParams_pair cfg px v = (Inr c, p)"
    "parseDSNParams_loop c p vs = (Inr cfg', px')"
    using Cons.prems(1) by (auto split: prod.splits sum.splits)
  have "Params c key = Params cfg key"
    using parseDSNParams_pair_Params [OF cp(1)] Cons.prems(2) by simp
  moreover have "Params cfg' key = Params c key"
    using Cons.IH [OF cp(2)] Cons.prems(2) by simp
  ultimately show ?case by simp
qed


text \<open>What the slash case does to the Config after parseParams: it assigns database and
  schema, nothing else.\<close>

lemma ParseDSN_slash_query_frame:
  assumes "CHR ''?'' \<notin> set body" "i < length body"
  shows "\<exists>t. ParseDSN_slash body i (int (length body)) cfg px =
            (case t of Inl e \<Rightarrow> (Inl e, px) | Inr (c1, f) \<Rightarrow> (Inr (f c1), px))
        \<and> ParseDSN_slash (body @ CHR ''?'' # q) i (int (length body)) cfg px =
            (case t of Inl e \<Rightarrow> (Inl e, px)
             | Inr (c1, f) \<Rightarrow>
                 (case parseDSNParams c1 px q of
                    (Inl e, px') \<Rightarrow> (Inl e, px')
                  | (Inr c, px') \<Rightarrow> (Inr (f c), px')))
        \<and> (\<forall>c1 f. t = Inr (c1, f) \<longrightarrow>
              (\<forall>c. f c = c\<lparr>Database := Database (f c), Schema := Schema (f c)\<rparr>))"
proof (cases "ParseDSN_slash_target body i cfg")
  case (Inl e)
  then have "ParseDSN_slash_target (body @ CHR ''?'' # q) i cfg = Inl e"
    using assms(2) by (simp add: ParseDSN_slash_target_local)
  then show ?thesis
    using Inl by (intro exI [of _ "Inl e"]) (simp add: ParseDSN_slash_def)
next
  case (Inr r)
  obtain c1 ss pss where r: "r = (c1, ss, pss)"
    by (cases r) auto
  have tb: "ParseDSN_slash_target body i cfg = Inr (c1, ss, pss)"
    using Inr r by simp
  have tq: "ParseDSN_slash_target (body @ CHR ''?'' # q) i cfg = Inr (c1, ss, pss)"
    using tb assms(2) by (simp add: ParseDSN_slash_target_local)
  have b: "0 \<le> pss \<and> pss \<le> int i"
    using ParseDSN_slash_target_bounds [OF tb] .
  let ?L = "int (length body)"
  let ?f = "\<lambda>c. if ss then c\<lparr>Database := slice body (pss + 1) (int i),
                                Schema := slice body (int i + 1) ?L\<rparr>
                 else c\<lparr>Database := slice body (pss + 1) ?L, Schema := ''public''\<rparr>"
  have pb: "parseParams c1 px (int i) body = (Inr c1, px)"
    using assms(1) by (intro parseParams_none) (auto dest: in_set_dropD)
  have "CHR ''?'' \<notin> set (drop (Suc i) body)"
    using assms(1) by (auto dest: in_set_dropD)
  then have "parseParams c1 px (int (Suc i) - 1) (body @ CHR ''?'' # q) = parseDSNParams c1 px q"
    using assms(2) by (intro parseParams_query) auto
  then have pq: "parseParams c1 px (int i) (body @ CHR ''?'' # q) = parseDSNParams c1 px q"
    by simp
  have s1: "slice (body @ CHR ''?'' # q) (pss + 1) (int i) = slice body (pss + 1) (int i)"
    using b assms(2) by (intro slice_local) auto
  have s2: "slice (body @ CHR ''?'' # q) (int i + 1) ?L = slice body (int i + 1) ?L"
    by (intro slice_local) auto
  have s3: "slice (body @ CHR ''?'' # q) (pss + 1) ?L = slice body (pss + 1) ?L"
    using b by (intro slice_local) auto
  have 1: "ParseDSN_slash body i ?L cfg px = (Inr (?f c1), px)"
    unfolding ParseDSN_slash_def tb by (simp add: pb)
  have 2: "ParseDSN_slash (body @ CHR ''?'' # q) i ?L cfg px =
      (case parseDSNParams c1 px q of
         (Inl e, px') \<Rightarrow> (Inl e, px')
       | (Inr c, px') \<Rightarrow> (Inr (?f c), px'))"
    unfolding ParseDSN_slash_def tq by (simp add: pq s1 s2 s3 split: prod.splits sum.splits)
  have 3: "\<forall>c. ?f c = c\<lparr>Database := Database (?f c), Schema := Schema (?f c)\<rparr>"
    by simp
  show ?thesis
    using 1 2 3 by (intro exI [of _ "Inr (c1, ?f)"]) simp
qed

lemma ParseDSN_segments_query_frame:
  assumes "CHR ''?'' \<notin> set body" "CHR ''/'' \<notin> set q" "CHR ''@'' \<notin> set q"
  shows "\<exists>t. ParseDSN_segments px body =
            (case t of Inl e \<Rightarrow> (Inl e, px) | Inr (c1, f) \<Rightarrow> (Inr (f c1), px))
        \<and> ParseDSN_segments px (body @ CHR ''?'' # q) =
            (case t of Inl e \<Rightarrow> (Inl e, px)
             | Inr (c1, f) \<Rightarrow>
                 (case parseDSNParams c1 px q of
                    (Inl e, px') \<Rightarrow> (Inl e, px')
                  | (Inr c, px') \<Rightarrow> (Inr (f c), px')))
        \<and> (\<forall>c1 f. t = Inr (c1, f) \<longrightarrow>
              (\<forall>c. f c = c\<lparr>Database := Database (f c), Schema := Schema (f c)\<rparr>))"
proof -
  let ?dsn = "body @ CHR ''?'' # q"
  let ?L = "int (length body)"
  have "ParseDSN_loop ?dsn (Suc (length body + length q)) (int (length ?dsn)) newConfig px =
      ParseDSN_loop ?dsn (length body) ?L newConfig px"
    using assms(2) by (intro ParseDSN_loop_skip_query) auto
  then have sk: "ParseDSN_loop ?dsn (length ?dsn) (int (length ?dsn)) newConfig px =
      ParseDSN_loop ?dsn (length body) ?L newConfig px"
    by simp
  from ParseDSN_loop_body [of "length body" body "CHR ''?'' # q" ?L newConfig px] assms(1)
  consider
    (noslash) "ParseDSN_loop ?dsn (length body) ?L newConfig px = (False, ?L, Inr newConfig, px)"
      "ParseDSN_loop body (length body) ?L newConfig px = (False, ?L, Inr newConfig, px)"
      "CHR ''/'' \<notin> set body"
  | (slash) i where "i < length body" "body ! i = CHR ''/''"
      "ParseDSN_loop ?dsn (length body) ?L newConfig px =
         (case ParseDSN_slash ?dsn i ?L newConfig px of (r, px') \<Rightarrow> (True, ?L, r, px'))"
      "ParseDSN_loop body (length body) ?L newConfig px =
         (case ParseDSN_slash body i ?L newConfig px of (r, px') \<Rightarrow> (True, ?L, r, px'))"
    by auto
  then show ?thesis
  proof cases
    case noslash
    obtain t where t: "ParseDSN_noslash body ?L newConfig px =
            (case t of Inl e \<Rightarrow> (Inl e, px) | Inr c1 \<Rightarrow> (Inr c1, px))"
        "ParseDSN_noslash ?dsn ?L newConfig px =
            (case t of Inl e \<Rightarrow> (Inl e, px) | Inr c1 \<Rightarrow> parseDSNParams c1 px q)"
      using ParseDSN_noslash_query [OF assms(1,3)] by blast
    show ?thesis
      unfolding ParseDSN_segments_def sk noslash(1,2)
      using t
      by (intro exI [of _ "map_sum (\<lambda>e. e) (\<lambda>c1. (c1, \<lambda>c. c)) t"])
         (cases t; simp split: prod.splits sum.splits)
  next
    case (slash i)
    obtain t where t: "ParseDSN_slash body i ?L newConfig px =
            (case t of Inl e \<Rightarrow> (Inl e, px) | Inr (c1, f) \<Rightarrow> (Inr (f c1), px))"
        "ParseDSN_slash ?dsn i ?L newConfig px =
            (case t of Inl e \<Rightarrow> (Inl e, px)
             | Inr (c1, f) \<Rightarrow>
                 (case parseDSNParams c1 px q of
                    (Inl e, px') \<Rightarrow> (Inl e, px')
                  | (Inr c, px') \<Rightarrow> (Inr (f c), px')))"
        "\<forall>c1 f. t = Inr (c1, f) \<longrightarrow>
              (\<forall>c. f c = c\<lparr>Database := Database (f c), Schema := Schema (f c)\<rparr>)"
      using ParseDSN_slash_query_frame [OF assms(1) slash(1)] by blast
    have sl: "CHR ''/'' \<in> set body"
      using slash(1,2) nth_mem by metis
    show ?thesis
      unfolding ParseDSN_segments_def sk slash(3,4)
      using t
      by (intro exI [of _ t]) (cases t; simp split: prod.splits sum.splits)
  qed
qed

lemma ParseDSN_frame_Params:
  assumes "fillMissingConfigParameters clientType (ParseDSN_account c) = Inr c'"
    "ParseDSN_unescape c' = Inr cfg"
  shows "Params cfg = Params c"
proof -
  have "Params (ParseDSN_account c) = Params c"
    by (simp add: ParseDSN_account_def Let_def)
  moreover have "Params c' = Params (ParseDSN_account c)"
    using assms(1) by (auto simp: fill_cases split: if_splits)
  moreover have "Params cfg = Params c'"
    using unescape_explicit [OF assms(2)] by auto
  ultimately show ?thesis by simp
qed

lemma ParseDSN_unrecognized_key:
  assumes "CHR ''?'' \<notin> set body" "CHR ''/'' \<notin> set q" "CHR ''@'' \<notin> set q"
    and "key \<notin> set recognizedKeys" "CHR ''='' \<notin> set key"
    and "Split q ''&'' = before @ (key @ ''='' @ raw) # after"
    and "\<forall>v\<in>set after. \<not> HasPrefix v (key @ ''='')"
    and "ParseDSN clientType px (body @ ''?'' @ q) = (Inr cfg, px')"
  shows "\<exists>val. QueryUnescape raw = Inr val \<and> Params cfg key = Some val"
proof -
  obtain t where t: "ParseDSN_segments px (body @ CHR ''?'' # q) =
            (case t of Inl e \<Rightarrow> (Inl e, px)
             | Inr (c1, f) \<Rightarrow>
                 (case parseDSNParams c1 px q of
                    (Inl e, px') \<Rightarrow> (Inl e, px')
                  | (Inr c, px') \<Rightarrow> (Inr (f c), px')))"
     and fr: "\<forall>c1 f. t = Inr (c1, f) \<longrightarrow>
              (\<forall>c. f c = c\<lparr>Database := Database (f c), Schema := Schema (f c)\<rparr>)"
    using ParseDSN_segments_query_frame [OF assms(1-3)] by blast
  obtain c where seg: "ParseDSN_segments px (body @ CHR ''?'' # q) = (Inr c, px')"
    and fl: "\<exists>c'. fillMissingConfigParameters clientType (ParseDSN_account c) = Inr c'
        \<and> ParseDSN_unescape c' = Inr cfg"
    using assms(8) by (auto simp: ParseDSN_def split: prod.splits sum.splits)
  obtain c1 f where cf: "t = Inr (c1, f)"
    using t seg by (cases t) auto
  obtain c2 where p: "parseDSNParams c1 px q = (Inr c2, px')" and c: "c = f c2"
    using t seg cf by (auto split: prod.splits sum.splits)
  have "f c2 = c2\<lparr>Database := Database (f c2), Schema := Schema (f c2)\<rparr>"
    using fr cf by blast
  then have "Params (f c2) = Params (c2\<lparr>Database := Database (f c2), Schema := Schema (f c2)\<rparr>)"
    by simp
  then have pc: "Params c = Params c2"
    using c by simp
  have l: "parseDSNParams_loop c1 px (before @ (key @ ''='' @ raw) # after) = (Inr c2, px')"
    using p assms(6) by (simp add: parseDSNParams_def)
  obtain d1 p1 where 1: "parseDSNParams_loop c1 px before = (Inr d1, p1)"
    and 2: "parseDSNParams_loop d1 p1 ((key @ ''='' @ raw) # after) = (Inr c2, px')"
    using l by (auto simp: parseDSNParams_loop_append split: prod.splits sum.splits)
  have pe: "parseDSNParams_pair d1 p1 (key @ ''='' @ raw) =
        (case QueryUnescape raw of
           Inl err \<Rightarrow> (Inl err, p1)
         | Inr val \<Rightarrow> (Inr (d1\<lparr>Params := (Params d1)(key \<mapsto> val)\<rparr>), p1))"
    using assms(4,5)
    by (simp add: parseDSNParams_pair_eq parseDSNParams_switch_default split: sum.splits)
  obtain val where val: "QueryUnescape raw = Inr val"
    using 2 pe by (cases "QueryUnescape raw") auto
  have 3: "parseDSNParams_loop (d1\<lparr>Params := (Params d1)(key \<mapsto> val)\<rparr>) p1 after = (Inr c2, px')"
    using 2 pe val by simp
  have "Params c2 key = Params (d1\<lparr>Params := (Params d1)(key \<mapsto> val)\<rparr>) key"
    using parseDSNParams_loop_Params [OF 3] assms(7) by blast
  then have "Params c2 key = Some val"
    by simp
  moreover have "Params cfg = Params c"
    using fl ParseDSN_frame_Params by blast
  ultimately show ?thesis
    using val pc by simp
qed

text \<open>
  Claim C8, as stated, fails: the value stored for an unrecognized key is the unescaped
  value, not the bytes that stood after \<open>=\<close> (for \<open>foo=a%20b\<close> the map holds \<open>a b\<close>), and a
  value that cannot be unescaped ends the parse, so that the pair is stored nowhere.
\<close>

theorem Params_value_not_verbatim:
  "Params (projr (fst (ParseDSN ''Go'' noProxy ''user:pass@acc?foo=a%20b''))) ''foo'' = Some ''a b''
   \<and> Params (projr (fst (ParseDSN ''Go'' noProxy ''user:pass@acc?foo=a%20b''))) ''foo''
       \<noteq> Some ''a%20b''
   \<and> fst (ParseDSN ''Go'' noProxy ''user:pass@acc?foo=%zz'') = Inl (EscapeError ''%zz'')"
  by (simp add: parse_eval_hex char_of_32)

text \<open>
  Claim C8, amended. For a key that is not recognized (and holds no \<open>=\<close>), the pair
  \<open>key=raw\<close> stores under the key in \<open>Params\<close> the unescaped value of \<open>raw\<close>, which is \<open>raw\<close>
  itself when \<open>raw\<close> holds neither \<open>%\<close> nor \<open>+\<close>; when \<open>raw\<close> cannot be unescaped the pair
  ends the parse with the escape error. When the loop over the pairs succeeds, the key of
  such a pair is in \<open>Params\<close>, with the unescaped value of the last pair that has this key;
  and so it is in the Config that ParseDSN returns for a DSN \<open>body?query\<close> (a query without
  \<open>/\<close> and \<open>@\<close>) when the parse succeeds.
\<close>

theorem Params_unrecognized_key:
  "(key \<notin> set recognizedKeys \<and> CHR ''='' \<notin> set key \<longrightarrow>
      parseDSNParams_pair cfg px (key @ ''='' @ raw) =
        (case QueryUnescape raw of
           Inl err \<Rightarrow> (Inl err, px)
         | Inr val \<Rightarrow> (Inr (cfg\<lparr>Params := (Params cfg)(key \<mapsto> val)\<rparr>), px)))
   \<and> (CHR ''%'' \<notin> set raw \<and> CHR ''+'' \<notin> set raw \<longrightarrow> QueryUnescape raw = Inr raw)
   \<and> (key \<notin> set recognizedKeys \<and> CHR ''='' \<notin> set key
      \<and> parseDSNParams_loop cfg px (before @ (key @ ''='' @ raw) # after) = (Inr cfg', px')
      \<and> (\<forall>v\<in>set after. \<not> HasPrefix v (key @ ''='')) \<longrightarrow>
      (\<exists>val. QueryUnescape raw = Inr val \<and> Params cfg' key = Some val))
   \<and> (CHR ''?'' \<notin> set body \<and> CHR ''/'' \<notin> set q \<and> CHR ''@'' \<notin> set q
      \<and> key \<notin> set recognizedKeys \<and> CHR ''='' \<notin> set key
      \<and> Split q ''&'' = before @ (key @ ''='' @ raw) # after
      \<and> (\<forall>v\<in>set after. \<not> HasPrefix v (key @ ''=''))
      \<and> ParseDSN clientType px (body @ ''?'' @ q) = (Inr cfg', px') \<longrightarrow>
      (\<exists>val. QueryUnescape raw = Inr val \<and> Params cfg' key = Some val))"
proof (intro conjI impI)
  assume a: "key \<notin> set recognizedKeys \<and> CHR ''='' \<notin> set key"
  then show "parseDSNParams_pair cfg px (key @ ''='' @ raw) =
        (case QueryUnescape raw of
           Inl err \<Rightarrow> (Inl err, px)
         | Inr val \<Rightarrow> (Inr (cfg\<lparr>Params := (Params cfg)(key \<mapsto> val)\<rparr>), px))"
    by (simp add: parseDSNParams_pair_eq parseDSNParams_switch_default split: sum.splits)
next
  assume "CHR ''%'' \<notin> set raw \<and> CHR ''+'' \<notin> set raw"
  then show "QueryUnescape raw = Inr raw"
    by (simp add: unescape_plain)
next
  assume a: "key \<notin> set recognizedKeys \<and> CHR ''='' \<notin> set key
      \<and> parseDSNParams_loop cfg px (before @ (key @ ''='' @ raw) # after) = (Inr cfg', px')
      \<and> (\<forall>v\<in>set after. \<not> HasPrefix v (key @ ''='')) "
  then obtain c1 p1 where 1: "parseDSNParams_loop cfg px before = (Inr c1, p1)"
    and 2: "parseDSNParams_loop c1 p1 ((key @ ''='' @ raw) # after) = (Inr cfg', px')"
    by (auto simp: parseDSNParams_loop_append split: prod.splits sum.splits)
  have p: "parseDSNParams_pair c1 p1 (key @ ''='' @ raw) =
        (case QueryUnescape raw of
           Inl err \<Rightarrow> (Inl err, p1)
         | Inr val \<Rightarrow> (Inr (c1\<lparr>Params := (Params c1)(key \<mapsto> val)\<rparr>), p1))"
    using a by (simp add: parseDSNParams_pair_eq parseDSNParams_switch_default split: sum.splits)
  obtain val where val: "QueryUnescape raw = Inr val"
    using 2 p by (cases "QueryUnescape raw") auto
  have 3: "parseDSNParams_loop (c1\<lparr>Params := (Params c1)(key \<mapsto> val)\<rparr>) p1 after = (Inr cfg', px')"
    using 2 p val by simp
  have "Params cfg' key = Params (c1\<lparr>Params := (Params c1)(key \<mapsto> val)\<rparr>) key"
    using parseDSNParams_loop_Params [OF 3] a by blast
  then show "\<exists>val. QueryUnescape raw = Inr val \<and> Params cfg' key = Some val"
    using val by simp
next
  assume "CHR ''?'' \<notin> set body \<and> CHR ''/'' \<notin> set q \<and> CHR ''@'' \<notin> set q
      \<and> key \<notin> set recognizedKeys \<and> CHR ''='' \<notin> set key
      \<and> Split q ''&'' = before @ (key @ ''='' @ raw) # after
      \<and> (\<forall>v\<in>set after. \<not> HasPrefix v (key @ ''=''))
      \<and> ParseDSN clientType px (body @ ''?'' @ q) = (Inr cfg', px')"
  then show "\<exists>val. QueryUnescape raw = Inr val \<and> Params cfg' key = Some val"
    using ParseDSN_unrecognized_key by blast
qed

theorem Params_unrecognized_key_witness:
  "parseDSNParams_pair newConfig noProxy ''foo=a%20b'' =
     (Inr (newConfig\<lparr>Params := (Params newConfig)(''foo'' \<mapsto> ''a b'')\<rparr>), noProxy)
   \<and> QueryUnescape ''wh'' = Inr ''wh''
   \<and> (\<exists>val. QueryUnescape ''a%20b'' = Inr val
        \<and> Params (newConfig\<lparr>Role := ''r'', Params := (Params newConfig)(''foo'' \<mapsto> ''a b'', ''bar'' \<mapsto> ''c'')\<rparr>)
             ''foo'' = Some val)
   \<and> ParseDSN ''Go'' noProxy ''u:p@a?foo=a%20b&bar=c'' =
       (Inr (newConfig\<lparr>Account := ''a'', User := ''u'', Password := ''p'',
               Params := (Params newConfig)(''foo'' \<mapsto> ''a b'', ''bar'' \<mapsto> ''c''),
               Protocol := ''https'', Host := ''a.snowflakecomputing.com'', Port := 443,
               Authenticator := ''snowflake'', LoginTimeout := 60000000000,
               Application := ''Go''\<rparr>), noProxy)
   \<and> (\<exists>val. QueryUnescape ''a%20b'' = Inr val
        \<and> Params (newConfig\<lparr>Account := ''a'', User := ''u'', Password := ''p'',
               Params := (Params newConfig)(''foo'' \<mapsto> ''a b'', ''bar'' \<mapsto> ''c''),
               Protocol := ''https'', Host := ''a.snowflakecomputing.com'', Port := 443,
               Authenticator := ''snowflake'', LoginTimeout := 60000000000,
               Application := ''Go''\<rparr>) ''foo'' = Some val)"
proof -
  let ?res = "newConfig\<lparr>Account := ''a'', User := ''u'', Password := ''p'',
               Params := (Params newConfig)(''foo'' \<mapsto> ''a b'', ''bar'' \<mapsto> ''c''),
               Protocol := ''https'', Host := ''a.snowflakecomputing.com'', Port := 443,
               Authenticator := ''snowflake'', LoginTimeout := 60000000000,
               Application := ''Go''\<rparr>"
  have k: "''foo'' \<notin> set recognizedKeys \<and> CHR ''='' \<notin> set ''foo''"
    by (simp add: recognizedKeys_def)
  have u: "QueryUnescape ''a%20b'' = Inr ''a b''"
    by (simp add: QueryUnescape_def ishex_def unhex_def less_eq_char_def char_of_32)
  have l: "parseDSNParams_loop newConfig noProxy ([''role=r''] @ (''foo'' @ ''='' @ ''a%20b'') # [''bar=c'']) =
      (Inr (newConfig\<lparr>Role := ''r'', Params := (Params newConfig)(''foo'' \<mapsto> ''a b'', ''bar'' \<mapsto> ''c'')\<rparr>), noProxy)"
    by (simp add: parse_eval_hex char_of_32)
  have n: "\<forall>v\<in>set [''bar=c'']. \<not> HasPrefix v (''foo'' @ ''='')"
    by (simp add: HasPrefix_def)
  have w: "CHR ''%'' \<notin> set ''wh'' \<and> CHR ''+'' \<notin> set ''wh''"
    by simp
  have b: "CHR ''?'' \<notin> set ''u:p@a'' \<and> CHR ''/'' \<notin> set ''foo=a%20b&bar=c''
      \<and> CHR ''@'' \<notin> set ''foo=a%20b&bar=c''"
    by simp
  have sp: "Split ''foo=a%20b&bar=c'' ''&'' = [] @ (''foo'' @ ''='' @ ''a%20b'') # [''bar=c'']"
    by (simp add: Split_def HasPrefix_def slice_def slice_from_def Let_def)
  have d: "ParseDSN ''Go'' noProxy (''u:p@a'' @ ''?'' @ ''foo=a%20b&bar=c'') = (Inr ?res, noProxy)"
    by (simp add: parse_eval_hex char_of_32)
  have 1: "parseDSNParams_pair newConfig noProxy (''foo'' @ ''='' @ ''a%20b'') =
     (Inr (newConfig\<lparr>Params := (Params newConfig)(''foo'' \<mapsto> ''a b'')\<rparr>), noProxy)"
    using Params_unrecognized_key [of "''foo''" newConfig noProxy "''a%20b''"] k u by simp
  have 2: "QueryUnescape ''wh'' = Inr ''wh''"
    using Params_unrecognized_key [of _ _ _ "''wh''"] w by blast
  have 3: "\<exists>val. QueryUnescape ''a%20b'' = Inr val
        \<and> Params (newConfig\<lparr>Role := ''r'', Params := (Params newConfig)(''foo'' \<mapsto> ''a b'', ''bar'' \<mapsto> ''c'')\<rparr>)
             ''foo'' = Some val"
    using Params_unrecognized_key [of "''foo''" newConfig noProxy "''a%20b''" "[''role=r'']"
        "[''bar=c'']" "newConfig\<lparr>Role := ''r'', Params := (Params newConfig)(''foo'' \<mapsto> ''a b'', ''bar'' \<mapsto> ''c'')\<rparr>"
        noProxy] k l n
    by blast
  have 4: "\<exists>val. QueryUnescape ''a%20b'' = Inr val \<and> Params ?res ''foo'' = Some val"
    using Params_unrecognized_key [of "''foo''" _ noProxy "''a%20b''" "[]" "[''bar=c'']" ?res noProxy
        "''u:p@a''" "''foo=a%20b&bar=c''" "''Go''"] k b sp n d
    by blast
  show ?thesis
    using 1 2 3 4 d by simp
qed

section \<open>The empty account\<close>

text \<open>The DSNs \<open>cred@/rest\<close>: the outer loop stops at the last slash, the inner loop at the
  \<open>@\<close>, with \<open>posSecondSlash\<close> right behind it, so that parseAccountHostPort is given an
  empty segment.\<close>

lemma ParseDSN_loop_last_slash:
  assumes "CHR ''/'' \<notin> set tail" "CHR ''?'' \<notin> set tail" "n \<le> length tail"
  shows "ParseDSN_loop (pre @ CHR ''/'' # tail @ sfx) (Suc (length pre + n)) pq cfg px =
         (case ParseDSN_slash (pre @ CHR ''/'' # tail @ sfx) (length pre) pq cfg px of
            (r, px') \<Rightarrow> (True, pq, r, px'))"
  using assms(3)
proof (induction n)
  case 0
  show ?case by (simp add: nth_append)
next
  case (Suc n)
  have m: "tail ! n \<in> set tail" using Suc.prems by simp
  have ns: "tail ! n \<noteq> CHR ''/''" and nq: "tail ! n \<noteq> CHR ''?''"
    using m assms(1,2) by metis+
  have "(pre @ CHR ''/'' # tail @ sfx) ! (Suc (length pre + n)) = (tail @ sfx) ! n"
    by (simp add: nth_append)
  then have nth: "(pre @ CHR ''/'' # tail @ sfx) ! (Suc (length pre + n)) = tail ! n"
    using Suc.prems by (simp add: nth_append)
  show ?case
    using Suc.IH Suc.prems ns nq nth by simp
qed

lemma ParseDSN_slash_loop_empty_segment:
  assumes "s ! lc = CHR ''@''"
    and "\<forall>k. lc < k \<and> k < lc + 1 + d \<longrightarrow> s ! k \<noteq> CHR ''@''"
    and "d = 0 \<longrightarrow> pss = int lc + 1"
    and "d > 0 \<longrightarrow> s ! (lc + 1) = CHR ''/''"
  shows "\<exists>ss'. ParseDSN_slash_loop s (lc + 1 + d) cfg ss pss =
      (int lc, cfg\<lparr>User := fst (parseUserPassword (int lc) s),
                    Password := snd (parseUserPassword (int lc) s)\<rparr>, ss', int lc + 1)"
  using assms(2,3,4)
proof (induction d arbitrary: ss pss)
  case 0
  then show ?case
    using assms(1) by (simp add: case_prod_beta)
next
  case (Suc d)
  have na: "s ! (lc + 1 + d) \<noteq> CHR ''@''"
    using Suc.prems(1) by simp
  have r: "\<forall>k. lc < k \<and> k < lc + 1 + d \<longrightarrow> s ! k \<noteq> CHR ''@''"
    using Suc.prems(1) by simp
  have sl: "d > 0 \<longrightarrow> s ! (lc + 1) = CHR ''/''"
    using Suc.prems(3) by simp
  show ?case
  proof (cases "s ! (lc + 1 + d) = CHR ''/''")
    case True
    have "\<exists>ss'. ParseDSN_slash_loop s (lc + 1 + d) cfg True (int (lc + 1 + d)) =
      (int lc, cfg\<lparr>User := fst (parseUserPassword (int lc) s),
                    Password := snd (parseUserPassword (int lc) s)\<rparr>, ss', int lc + 1)"
      by (rule Suc.IH [OF r _ sl]) simp
    then show ?thesis
      using True by simp
  next
    case False
    have "d \<noteq> 0"
    proof
      assume "d = 0"
      then show False using False Suc.prems(3) by simp
    qed
    then have "\<exists>ss'. ParseDSN_slash_loop s (lc + 1 + d) cfg ss pss =
      (int lc, cfg\<lparr>User := fst (parseUserPassword (int lc) s),
                    Password := snd (parseUserPassword (int lc) s)\<rparr>, ss', int lc + 1)"
      by (intro Suc.IH [OF r _ sl]) simp
    then show ?thesis
      using False na by simp
  qed
qed

lemma parseAccountHostPort_empty_segment:
  "0 \<le> p \<Longrightarrow> parseAccountHostPort (p - 1) p s = Inr ([], [], ''.snowflakecomputing.com'', 443)"
  unfolding parseAccountHostPort_def
  by (simp add: scanFor_stop slice_def HasSuffix_def Let_def)


lemma ParseDSN_slash_target_empty_segment:
  assumes "CHR ''@'' \<notin> set mid" "mid = [] \<or> hd mid = CHR ''/''"
    and s: "s = cred @ CHR ''@'' # mid @ CHR ''/'' # sfx"
  shows "\<exists>ss. ParseDSN_slash_target s (length cred + 1 + length mid) cfg =
      Inr (cfg\<lparr>User := fst (parseUserPassword (int (length cred)) s),
               Password := snd (parseUserPassword (int (length cred)) s),
               Region := [], Account := [],
               Host := ''.snowflakecomputing.com'', Port := 443\<rparr>, ss, int (length cred) + 1)"
proof -
  let ?lc = "length cred" and ?d = "length mid"
  have at: "s ! ?lc = CHR ''@''"
    unfolding s by (simp add: nth_append)
  have noat: "\<forall>k. ?lc < k \<and> k < ?lc + 1 + ?d \<longrightarrow> s ! k \<noteq> CHR ''@''"
  proof (intro allI impI)
    fix k assume k: "?lc < k \<and> k < ?lc + 1 + ?d"
    then have "s ! k = mid ! (k - ?lc - 1)"
      unfolding s by (auto simp: nth_append nth_Cons')
    moreover have "mid ! (k - ?lc - 1) \<in> set mid"
      using k by (intro nth_mem) auto
    ultimately show "s ! k \<noteq> CHR ''@''"
      using assms(1) by metis
  qed
  have sl: "?d > 0 \<longrightarrow> s ! (?lc + 1) = CHR ''/''"
  proof
    assume "?d > 0"
    then have "mid \<noteq> []" by simp
    then have "hd mid = CHR ''/''" using assms(2) by simp
    moreover have "s ! (?lc + 1) = mid ! 0"
      unfolding s using \<open>mid \<noteq> []\<close> by (simp add: nth_append)
    ultimately show "s ! (?lc + 1) = CHR ''/''"
      using \<open>mid \<noteq> []\<close> by (simp add: hd_conv_nth)
  qed
  have z: "?d = 0 \<longrightarrow> int (?lc + 1 + ?d) = int ?lc + 1"
    by simp
  obtain ss' where l: "ParseDSN_slash_loop s (?lc + 1 + ?d) cfg False (int (?lc + 1 + ?d)) =
      (int ?lc, cfg\<lparr>User := fst (parseUserPassword (int ?lc) s),
                    Password := snd (parseUserPassword (int ?lc) s)\<rparr>, ss', int ?lc + 1)"
    using ParseDSN_slash_loop_empty_segment [OF at noat z sl] by blast
  have a: "parseAccountHostPort (int ?lc) (int ?lc + 1) s =
      Inr ([], [], ''.snowflakecomputing.com'', 443)"
    using parseAccountHostPort_empty_segment [of "int ?lc + 1" s] by simp
  show ?thesis
    unfolding ParseDSN_slash_target_def l
    by (simp add: a)
qed

lemma parseDSNParams_switch_Account:
  "parseDSNParams_switch cfg px k val = (Inr cfg', px') \<Longrightarrow> k \<noteq> ''account'' \<Longrightarrow>
   Account cfg' = Account cfg"
  unfolding parseDSNParams_switch_def
  by (simp split: if_splits sum.splits; fastforce)

lemma parseDSNParams_switch_Host:
  "parseDSNParams_switch cfg px k val = (Inr cfg', px') \<Longrightarrow> Host cfg' = Host cfg"
  unfolding parseDSNParams_switch_def
  by (simp split: if_splits sum.splits; fastforce)

lemma parseDSNParams_pair_Account:
  assumes "parseDSNParams_pair cfg px v = (Inr cfg', px')" "\<not> HasPrefix v ''account=''"
  shows "Account cfg' = Account cfg \<and> Host cfg' = Host cfg"
proof (cases "length (SplitN v ''='' 2) = 2")
  case False
  then show ?thesis
    using assms(1) by (simp add: parseDSNParams_pair_def)
next
  case True
  let ?k = "SplitN v ''='' 2 ! 0" and ?r = "SplitN v ''='' 2 ! 1"
  have v: "v = ?k @ CHR ''='' # ?r"
    using SplitN_2_decomp [OF True] by simp
  have "?k \<noteq> ''account''"
  proof
    assume "?k = ''account''"
    then have "v = ''account='' @ ?r"
      using v by simp
    then have "HasPrefix v ''account=''"
      unfolding HasPrefix_def by (metis append_eq_conv_conj le_add1 length_append)
    then show False using assms(2) by simp
  qed
  moreover obtain val where "QueryUnescape ?r = Inr val"
    "parseDSNParams_switch cfg px ?k val = (Inr cfg', px')"
    using assms(1) True by (auto simp: parseDSNParams_pair_def Let_def split: sum.splits)
  ultimately show ?thesis
    using parseDSNParams_switch_Account parseDSNParams_switch_Host by blast
qed

lemma parseDSNParams_loop_Account:
  assumes "parseDSNParams_loop cfg px vs = (Inr cfg', px')"
    "\<forall>v\<in>set vs. \<not> HasPrefix v ''account=''"
  shows "Account cfg' = Account cfg \<and> Host cfg' = Host cfg"
  using assms
proof (induction vs arbitrary: cfg px)
  case Nil
  then show ?case by simp
next
  case (Cons v vs)
  obtain c p where cp: "parseDSNParams_pair cfg px v = (Inr c, p)"
    "parseDSNParams_loop c p vs = (Inr cfg', px')"
    using Cons.prems(1) by (auto split: prod.splits sum.splits)
  have "Account c = Account cfg \<and> Host c = Host cfg"
    using parseDSNParams_pair_Account [OF cp(1)] Cons.prems(2) by simp
  moreover have "Account cfg' = Account c \<and> Host cfg' = Host c"
    using Cons.IH [OF cp(2)] Cons.prems(2) by simp
  ultimately show ?case by simp
qed

lemma parseDSNParams_success_indep:
  assumes "fst (parseDSNParams cfg px q) = Inr c"
  shows "\<exists>c' p'. parseDSNParams cfg' px' q = (Inr c', p')"
proof (cases "parseDSNParams cfg' px' q")
  case (Pair r p')
  show ?thesis
  proof (cases r)
    case (Inl e)
    then have "fst (parseDSNParams cfg' px' q) = Inl e"
      using Pair by simp
    then have "fst (parseDSNParams cfg px q) = Inl e"
      by (rule parseDSNParams_error_indep)
    then show ?thesis using assms by simp
  next
    case (Inr c')
    then show ?thesis using Pair by simp
  qed
qed

lemma ParseDSN_no_account:
  assumes "ParseDSN_segments px dsn = (Inr c, px')" "Account c = []"
    "Host c = ''.snowflakecomputing.com''"
  shows "ParseDSN clientType px dsn = (Inl ErrEmptyAccount, px')"
proof -
  have "ParseDSN_account c = c"
    using assms(2,3) by (simp add: ParseDSN_account_def HasPrefix_def Let_def)
  then show ?thesis
    using assms(1,2) by (simp add: ParseDSN_def fill_empty_account)
qed

text \<open>The DSNs \<open>cred@/rest\<close> and \<open>cred@/rest?q\<close>: the account segment is empty.\<close>

lemma last_slash_split:
  "\<exists>mid tail. CHR ''/'' # rest = mid @ CHR ''/'' # tail \<and> CHR ''/'' \<notin> set tail
     \<and> (mid = [] \<or> hd mid = CHR ''/'')"
proof -
  have "CHR ''/'' \<in> set (CHR ''/'' # rest)" by simp
  then obtain mid tail where d: "CHR ''/'' # rest = mid @ CHR ''/'' # tail" "CHR ''/'' \<notin> set tail"
    using split_list_last by metis
  have "mid = [] \<or> hd mid = CHR ''/''"
    using d(1) by (cases mid) auto
  then show ?thesis using d by blast
qed

lemma ParseDSN_segments_empty_segment:
  assumes "CHR ''@'' \<notin> set rest" "CHR ''?'' \<notin> set rest"
  shows "\<exists>c. ParseDSN_segments px (cred @ ''@/'' @ rest) = (Inr c, px) \<and> Account c = []
      \<and> Host c = ''.snowflakecomputing.com''"
    and "CHR ''/'' \<notin> set q \<Longrightarrow> CHR ''@'' \<notin> set q \<Longrightarrow>
      \<exists>c1 f. Account c1 = [] \<and> Host c1 = ''.snowflakecomputing.com''
        \<and> (\<forall>c. Account (f c) = Account c \<and> Host (f c) = Host c)
        \<and> ParseDSN_segments px (cred @ ''@/'' @ rest @ ''?'' @ q) =
            (case parseDSNParams c1 px q of
               (Inl e, px') \<Rightarrow> (Inl e, px')
             | (Inr c, px') \<Rightarrow> (Inr (f c), px'))"
proof -
  obtain mid tail where d: "CHR ''/'' # rest = mid @ CHR ''/'' # tail" "CHR ''/'' \<notin> set tail"
    "mid = [] \<or> hd mid = CHR ''/''"
    using last_slash_split by blast
  have sets: "set mid \<union> set tail \<subseteq> insert CHR ''/'' (set rest)"
  proof -
    have "set (mid @ CHR ''/'' # tail) = set (CHR ''/'' # rest)" using d(1) by simp
    then show ?thesis by auto
  qed
  have mida: "CHR ''@'' \<notin> set mid" and tailq: "CHR ''?'' \<notin> set tail"
    using sets assms by auto
  define pre where "pre = cred @ CHR ''@'' # mid"
  define i where "i = length cred + 1 + length mid"
  have len: "length pre = i"
    by (simp add: pre_def i_def)
  have target: "\<exists>u p ss. ParseDSN_slash_target (pre @ CHR ''/'' # tail @ sfx) i cfg =
      Inr (cfg\<lparr>User := u, Password := p, Region := [], Account := [],
             Host := ''.snowflakecomputing.com'', Port := 443\<rparr>, ss, int (length cred) + 1)"
    for sfx cfg
    using ParseDSN_slash_target_empty_segment [OF mida d(3), of "pre @ CHR ''/'' # tail @ sfx"
        cred "tail @ sfx" cfg]
    unfolding i_def by (simp add: pre_def) blast
  have loop: "ParseDSN_loop (pre @ CHR ''/'' # tail @ sfx) (Suc (i + length tail)) L newConfig px =
         (case ParseDSN_slash (pre @ CHR ''/'' # tail @ sfx) i L newConfig px of
            (r, px') \<Rightarrow> (True, L, r, px'))" for sfx L
    using ParseDSN_loop_last_slash [OF d(2) tailq order_refl, of pre sfx L newConfig px]
    unfolding len .
  show "\<exists>c. ParseDSN_segments px (cred @ ''@/'' @ rest) = (Inr c, px) \<and> Account c = []
      \<and> Host c = ''.snowflakecomputing.com''"
  proof -
    define s where "s = pre @ CHR ''/'' # tail"
    define L where "L = int (length s)"
    have body: "cred @ ''@/'' @ rest = s"
      using d(1) by (simp add: s_def pre_def)
    have ls: "length s = Suc (i + length tail)"
      by (simp add: s_def len)
    obtain u p ss where t: "ParseDSN_slash_target s i newConfig =
      Inr (newConfig\<lparr>User := u, Password := p, Region := [], Account := [],
             Host := ''.snowflakecomputing.com'', Port := 443\<rparr>, ss, int (length cred) + 1)"
      using target [of "[]" newConfig] unfolding s_def by auto
    have "CHR ''?'' \<notin> set (drop (nat (int i + 1)) s)"
      using tailq by (simp add: s_def nat_add_distrib len [symmetric])
    then have pp: "parseParams c px (int i) s = (Inr c, px)" for c
      by (rule parseParams_none)
    have sl: "\<exists>c. ParseDSN_slash s i L newConfig px = (Inr c, px) \<and> Account c = []
        \<and> Host c = ''.snowflakecomputing.com''"
      unfolding ParseDSN_slash_def t by (cases ss) (simp_all add: pp)
    have lp: "ParseDSN_loop s (length s) L newConfig px =
         (case ParseDSN_slash s i L newConfig px of (r, px') \<Rightarrow> (True, L, r, px'))"
      using loop [of "[]" L] by (simp add: s_def len)
    obtain c where c: "ParseDSN_slash s i L newConfig px = (Inr c, px)" "Account c = []"
        "Host c = ''.snowflakecomputing.com''"
      using sl by blast
    have "ParseDSN_segments px s = (Inr c, px)"
      unfolding ParseDSN_segments_def L_def [symmetric] lp c(1) by simp
    then show ?thesis
      unfolding body using c(2,3) by blast
  qed
  show "\<exists>c1 f. Account c1 = [] \<and> Host c1 = ''.snowflakecomputing.com''
        \<and> (\<forall>c. Account (f c) = Account c \<and> Host (f c) = Host c)
        \<and> ParseDSN_segments px (cred @ ''@/'' @ rest @ ''?'' @ q) =
            (case parseDSNParams c1 px q of
               (Inl e, px') \<Rightarrow> (Inl e, px')
             | (Inr c, px') \<Rightarrow> (Inr (f c), px'))"
    if q: "CHR ''/'' \<notin> set q" "CHR ''@'' \<notin> set q"
  proof -
    define b where "b = pre @ CHR ''/'' # tail"
    define s where "s = b @ CHR ''?'' # q"
    define L where "L = int (length b)"
    have s': "s = pre @ CHR ''/'' # tail @ (CHR ''?'' # q)"
      by (simp add: s_def b_def)
    have dsn: "cred @ ''@/'' @ rest @ ''?'' @ q = s"
      using d(1) by (simp add: s' pre_def)
    have lb: "length b = Suc (i + length tail)"
      by (simp add: b_def len)
    obtain u p ss where t: "ParseDSN_slash_target s i newConfig =
      Inr (newConfig\<lparr>User := u, Password := p, Region := [], Account := [],
             Host := ''.snowflakecomputing.com'', Port := 443\<rparr>, ss, int (length cred) + 1)"
      using target unfolding s' by blast
    define c1 where "c1 = newConfig\<lparr>User := u, Password := p, Region := [], Account := [],
             Host := ''.snowflakecomputing.com'', Port := 443\<rparr>"
    define f where "f = (\<lambda>c::Config.
        if ss then c\<lparr>Database := slice s (int (length cred) + 1 + 1) (int i),
                      Schema := slice s (int i + 1) L\<rparr>
        else c\<lparr>Database := slice s (int (length cred) + 1 + 1) L, Schema := ''public''\<rparr>)"
    have "CHR ''?'' \<notin> set (drop (Suc i) b)"
      using tailq by (simp add: b_def len [symmetric])
    moreover have "Suc i \<le> length b"
      by (simp add: lb)
    ultimately have "parseParams c px (int (Suc i) - 1) (b @ CHR ''?'' # q) = parseDSNParams c px q"
      for c
      by (rule parseParams_query)
    then have pp: "parseParams c px (int i) s = parseDSNParams c px q" for c
      by (simp add: s_def)
    have sl: "ParseDSN_slash s i L newConfig px =
        (case parseDSNParams c1 px q of
           (Inl e, px') \<Rightarrow> (Inl e, px')
         | (Inr c, px') \<Rightarrow> (Inr (f c), px'))"
      unfolding ParseDSN_slash_def t c1_def [symmetric] f_def
      by (simp add: pp split: prod.splits sum.splits)
    have "ParseDSN_loop (b @ CHR ''?'' # q) (Suc (length b + length q)) (int (length s)) newConfig px =
        ParseDSN_loop (b @ CHR ''?'' # q) (length b) (int (length b)) newConfig px"
      using q(1) by (intro ParseDSN_loop_skip_query) auto
    moreover have "length s = Suc (length b + length q)"
      by (simp add: s_def)
    ultimately have sk: "ParseDSN_loop s (length s) (int (length s)) newConfig px =
        ParseDSN_loop s (length b) L newConfig px"
      by (simp add: s_def L_def)
    have lp: "ParseDSN_loop s (length b) L newConfig px =
         (case ParseDSN_slash s i L newConfig px of (r, px') \<Rightarrow> (True, L, r, px'))"
      unfolding lb s' by (rule loop)
    have seg: "ParseDSN_segments px s =
        (case parseDSNParams c1 px q of
           (Inl e, px') \<Rightarrow> (Inl e, px')
         | (Inr c, px') \<Rightarrow> (Inr (f c), px'))"
      unfolding ParseDSN_segments_def sk lp sl by (simp split: prod.splits sum.splits)
    have fr: "\<forall>c. Account (f c) = Account c \<and> Host (f c) = Host c"
      by (simp add: f_def)
    have "Account c1 = [] \<and> Host c1 = ''.snowflakecomputing.com''"
      by (simp add: c1_def)
    then show ?thesis
      unfolding dsn using fr seg by blast
  qed
qed


lemma ParseDSN_empty_segment_query:
  assumes "CHR ''@'' \<notin> set rest" "CHR ''?'' \<notin> set rest" "CHR ''/'' \<notin> set q"
    "CHR ''@'' \<notin> set q" "\<forall>v\<in>set (Split q ''&''). \<not> HasPrefix v ''account=''"
    "fst (parseDSNParams cfg0 px0 q) = Inr cfg1"
  shows "fst (ParseDSN clientType px (cred @ ''@/'' @ rest @ ''?'' @ q)) = Inl ErrEmptyAccount"
proof -
  obtain c1 f where c1: "Account c1 = []" "Host c1 = ''.snowflakecomputing.com''"
    and f: "\<forall>c. Account (f c) = Account c \<and> Host (f c) = Host c"
    and seg: "ParseDSN_segments px (cred @ ''@/'' @ rest @ ''?'' @ q) =
            (case parseDSNParams c1 px q of
               (Inl e, px') \<Rightarrow> (Inl e, px')
             | (Inr c, px') \<Rightarrow> (Inr (f c), px'))"
    using ParseDSN_segments_empty_segment(2) [OF assms(1-4)] by blast
  obtain c2 p2 where p: "parseDSNParams c1 px q = (Inr c2, p2)"
    using parseDSNParams_success_indep [OF assms(6)] by blast
  have "Account c2 = Account c1 \<and> Host c2 = Host c1"
    using p assms(5) unfolding parseDSNParams_def by (rule parseDSNParams_loop_Account)
  then have "Account (f c2) = [] \<and> Host (f c2) = ''.snowflakecomputing.com''"
    using c1 f by simp
  moreover have "ParseDSN_segments px (cred @ ''@/'' @ rest @ ''?'' @ q) = (Inr (f c2), p2)"
    using seg p by simp
  ultimately have "ParseDSN clientType px (cred @ ''@/'' @ rest @ ''?'' @ q) =
      (Inl ErrEmptyAccount, p2)"
    using ParseDSN_no_account by blast
  then show ?thesis by simp
qed

lemma ParseDSN_empty_segment:
  assumes "CHR ''@'' \<notin> set rest" "CHR ''?'' \<notin> set rest"
  shows "ParseDSN clientType px (cred @ ''@/'' @ rest) = (Inl ErrEmptyAccount, px)"
  using ParseDSN_segments_empty_segment(1) [OF assms] ParseDSN_no_account by blast

lemma ParseDSN_user_pass_db_account:
  "ParseDSN clientType px ''user:pass@/db?account=x'' =
     (Inr (newConfig\<lparr>Account := ''x'', User := ''user'', Password := ''pass'',
             Database := ''db'', Schema := ''public'', Protocol := ''https'',
             Host := ''.snowflakecomputing.com'', Port := 443,
             Authenticator := ''snowflake'', LoginTimeout := 60000000000,
             Application := clientType\<rparr>), px)"
  by (simp add: parse_eval)

text \<open>
  Claim C3, as stated, fails in its second half: a DSN whose account segment is empty
  does not fail with ErrEmptyAccount when its query string gives the account. The pair
  \<open>account=x\<close> is applied by parseParams before fillMissingConfigParameters runs.
\<close>

theorem ParseDSN_empty_segment_with_account:
  "ParseDSN ''Go'' noProxy ''user:pass@/db?account=x'' =
     (Inr (newConfig\<lparr>Account := ''x'', User := ''user'', Password := ''pass'',
             Database := ''db'', Schema := ''public'', Protocol := ''https'',
             Host := ''.snowflakecomputing.com'', Port := 443,
             Authenticator := ''snowflake'', LoginTimeout := 60000000000,
             Application := ''Go''\<rparr>), noProxy)
   \<and> fst (ParseDSN ''Go'' noProxy ''user:pass@/db?account=x'') \<noteq> Inl ErrEmptyAccount"
  by (simp add: ParseDSN_user_pass_db_account)

text \<open>
  Claim C3, amended. A Config with an empty account is rejected by
  fillMissingConfigParameters with ErrEmptyAccount, whatever its other fields are (the
  account is checked before the user and the password). Hence ParseDSN fails with
  ErrEmptyAccount on every DSN \<open>cred@/rest\<close> with an empty account segment and no query
  string (as \<open>user:pass@/db\<close>), and also on \<open>cred@/rest?q\<close> when the query string \<open>q\<close>
  parses and none of its pairs begins with \<open>account=\<close>. With the pair \<open>account=x\<close> the
  parse succeeds, with account \<open>x\<close>.
\<close>

theorem ParseDSN_empty_account_segment:
  "(Account cfg = [] \<longrightarrow> fillMissingConfigParameters clientType cfg = Inl ErrEmptyAccount)
   \<and> (CHR ''@'' \<notin> set rest \<and> CHR ''?'' \<notin> set rest \<longrightarrow>
        ParseDSN clientType px (cred @ ''@/'' @ rest) = (Inl ErrEmptyAccount, px))
   \<and> (CHR ''@'' \<notin> set rest \<and> CHR ''?'' \<notin> set rest
        \<and> CHR ''/'' \<notin> set q \<and> CHR ''@'' \<notin> set q
        \<and> (\<forall>v\<in>set (Split q ''&''). \<not> HasPrefix v ''account='')
        \<and> fst (parseDSNParams cfg0 px0 q) = Inr cfg1 \<longrightarrow>
        fst (ParseDSN clientType px (cred @ ''@/'' @ rest @ ''?'' @ q)) = Inl ErrEmptyAccount)
   \<and> ParseDSN clientType px ''user:pass@/db'' = (Inl ErrEmptyAccount, px)
   \<and> ParseDSN clientType px ''user:pass@/db?account=x'' =
       (Inr (newConfig\<lparr>Account := ''x'', User := ''user'', Password := ''pass'',
               Database := ''db'', Schema := ''public'', Protocol := ''https'',
               Host := ''.snowflakecomputing.com'', Port := 443,
               Authenticator := ''snowflake'', LoginTimeout := 60000000000,
               Application := clientType\<rparr>), px)"
proof (intro conjI impI)
  assume "Account cfg = []"
  then show "fillMissingConfigParameters clientType cfg = Inl ErrEmptyAccount"
    by (rule fill_empty_account)
next
  assume "CHR ''@'' \<notin> set rest \<and> CHR ''?'' \<notin> set rest"
  then show "ParseDSN clientType px (cred @ ''@/'' @ rest) = (Inl ErrEmptyAccount, px)"
    using ParseDSN_empty_segment by blast
next
  assume "CHR ''@'' \<notin> set rest \<and> CHR ''?'' \<notin> set rest
        \<and> CHR ''/'' \<notin> set q \<and> CHR ''@'' \<notin> set q
        \<and> (\<forall>v\<in>set (Split q ''&''). \<not> HasPrefix v ''account='')
        \<and> fst (parseDSNParams cfg0 px0 q) = Inr cfg1"
  then show "fst (ParseDSN clientType px (cred @ ''@/'' @ rest @ ''?'' @ q)) = Inl ErrEmptyAccount"
    using ParseDSN_empty_segment_query by blast
next
  show "ParseDSN clientType px ''user:pass@/db'' = (Inl ErrEmptyAccount, px)"
    by (rule ParseDSN_user_pass_db)
next
  show "ParseDSN clientType px ''user:pass@/db?account=x'' =
       (Inr (newConfig\<lparr>Account := ''x'', User := ''user'', Password := ''pass'',
               Database := ''db'', Schema := ''public'', Protocol := ''https'',
               Host := ''.snowflakecomputing.com'', Port := 443,
               Authenticator := ''snowflake'', LoginTimeout := 60000000000,
               Application := clientType\<rparr>), px)"
    by (rule ParseDSN_user_pass_db_account)
qed

theorem ParseDSN_empty_account_segment_witness:
  "fillMissingConfigParameters ''Go'' (newConfig\<lparr>User := ''u'', Password := ''p''\<rparr>) =
     Inl ErrEmptyAccount
   \<and> ParseDSN ''Go'' noProxy ''u:p@/db/sch'' = (Inl ErrEmptyAccount, noProxy)
   \<and> fst (parseDSNParams newConfig noProxy ''role=r&warehouse=w'') =
       Inr (newConfig\<lparr>Role := ''r'', Warehouse := ''w''\<rparr>)
   \<and> fst (ParseDSN ''Go'' noProxy ''u:p@/db/sch?role=r&warehouse=w'') = Inl ErrEmptyAccount"
proof -
  let ?q = "''role=r&warehouse=w''"
  have a: "Account (newConfig\<lparr>User := ''u'', Password := ''p''\<rparr>) = []"
    by (simp add: newConfig_def)
  have r: "CHR ''@'' \<notin> set ''db/sch'' \<and> CHR ''?'' \<notin> set ''db/sch''"
    by simp
  have q: "CHR ''/'' \<notin> set ?q \<and> CHR ''@'' \<notin> set ?q"
    by simp
  have s: "\<forall>v\<in>set (Split ?q ''&''). \<not> HasPrefix v ''account=''"
    by (simp add: Split_def HasPrefix_def slice_def slice_from_def Let_def)
  have p: "fst (parseDSNParams newConfig noProxy ?q) = Inr (newConfig\<lparr>Role := ''r'', Warehouse := ''w''\<rparr>)"
    by (simp add: parse_eval)
  have 1: "fillMissingConfigParameters ''Go'' (newConfig\<lparr>User := ''u'', Password := ''p''\<rparr>) =
     Inl ErrEmptyAccount"
    using ParseDSN_empty_account_segment [of "newConfig\<lparr>User := ''u'', Password := ''p''\<rparr>" "''Go''"] a
    by blast
  have 2: "ParseDSN ''Go'' noProxy (''u:p'' @ ''@/'' @ ''db/sch'') = (Inl ErrEmptyAccount, noProxy)"
    using ParseDSN_empty_account_segment [of _ "''Go''" "''db/sch''" noProxy "''u:p''"] r
    by blast
  have 3: "fst (ParseDSN ''Go'' noProxy (''u:p'' @ ''@/'' @ ''db/sch'' @ ''?'' @ ?q)) = Inl ErrEmptyAccount"
    using ParseDSN_empty_account_segment [of _ "''Go''" "''db/sch''" noProxy "''u:p''" ?q
        newConfig noProxy "newConfig\<lparr>Role := ''r'', Warehouse := ''w''\<rparr>"] r q s p
    by blast
  show ?thesis
    using 1 2 3 p by simp
qed

end
